theory Spec2Isabelle
  imports Complex_Main
begin

section \<open>Python values and exceptions\<close>

text \<open>
  The exceptions the device can raise.  The four categories of the specification's error
  taxonomy stand for the \<^verbatim>\<open>ValueError\<close> and \<^verbatim>\<open>NotImplementedError\<close> sites of
  \<^verbatim>\<open>default_tensor.py\<close>:
  \<^item> \<open>InvalidConfig\<close>: "Invalid representation ..." in \<^verbatim>\<open>__init__\<close> and "The contraction
    method ... was not found" in the \<^verbatim>\<open>contraction_method\<close> setter;
  \<^item> \<open>ShapeMismatch\<close>: "Tensor provided has shape=..." and "State vector must be of length
    2**wires.";
  \<^item> \<open>InvalidWires\<close>: "... can apply ... only to all of the ... wires." and "BasisState
    parameter must be an array of 0 or 1 integers of length at most ...";
  \<^item> \<open>NotSupported\<close>: every \<^verbatim>\<open>NotImplementedError\<close>.
  The remaining constructors are the exceptions that are outside that taxonomy:
  \<open>LengthMismatch\<close> is the \<^verbatim>\<open>ValueError\<close> "tensors, wires, and names must all be the same
  length."; \<open>IndexError\<close>, \<open>KeyError\<close>, \<open>TypeError\<close>, \<open>AttributeError\<close>,
  \<open>UnboundLocalError\<close> and \<open>ValueError\<close> (of a built-in such as \<^verbatim>\<open>max\<close>) are Python's
  own; \<open>NumpyError\<close> is a \<^verbatim>\<open>ValueError\<close> raised inside NumPy (reshape, matmul,
  random.choice) and \<open>TNError\<close> one raised inside the TensorNetwork library.
\<close>

datatype error =
    InvalidConfig
  | ShapeMismatch
  | InvalidWires
  | NotSupported
  | LengthMismatch
  | IndexError
  | KeyError
  | TypeError
  | AttributeError
  | UnboundLocalError
  | ValueError
  | NumpyError
  | TNError

text \<open>Python list indexing: negative indices count from the end, anything else out of
  range raises \<^verbatim>\<open>IndexError\<close> (the value \<open>None\<close> here).\<close>

definition py_pos :: "nat \<Rightarrow> int \<Rightarrow> nat option" where
  "py_pos n i =
     (if 0 \<le> i \<and> i < int n then Some (nat i)
      else if - int n \<le> i \<and> i < 0 then Some (nat (int n + i))
      else None)"

definition py_get :: "'a list \<Rightarrow> int \<Rightarrow> 'a option" where
  "py_get xs i = map_option (\<lambda>k. xs ! k) (py_pos (length xs) i)"

definition py_set :: "'a list \<Rightarrow> int \<Rightarrow> 'a \<Rightarrow> 'a list option" where
  "py_set xs i v = map_option (\<lambda>k. xs[k := v]) (py_pos (length xs) i)"

text \<open>\<^verbatim>\<open>range(n)\<close> as a list of Python integers.\<close>

definition py_range :: "nat \<Rightarrow> int list" where
  "py_range n = map int [0..<n]"

text \<open>\<^verbatim>\<open>"{}".format(tuple(wires))\<close>: the text of a tuple of integers.\<close>

fun digits :: "nat \<Rightarrow> string" where
  "digits n = (if n < 10 then [char_of (48 + n)] else digits (n div 10) @ [char_of (48 + n mod 10)])"

definition int_repr :: "int \<Rightarrow> string" where
  "int_repr i = (if i < 0 then CHR ''-'' # digits (nat (- i)) else digits (nat i))"

fun join_repr :: "string list \<Rightarrow> string" where
  "join_repr [] = []"
| "join_repr [s] = s"
| "join_repr (s # t # ss) = s @ '', '' @ join_repr (t # ss)"

definition tuple_repr :: "int list \<Rightarrow> string" where
  "tuple_repr ws =
     (case ws of
        [] \<Rightarrow> ''()''
      | [w] \<Rightarrow> ''('' @ int_repr w @ '',)''
      | _ \<Rightarrow> ''('' @ join_repr (map int_repr ws) @ '')'')"

section \<open>Tensors, nodes and edges\<close>

text \<open>
  An edge is an axis of a node; nodes are told apart by the number they get when they are
  created (their object identity).
\<close>

datatype edge = Edge (edge_node: nat) (edge_axis: nat)

text \<open>
  A tensor is a NumPy array.  \<open>Arr s d\<close> is an array given by its shape \<open>s\<close> and its
  entries \<open>d\<close> in row-major order.  The numerical routines of the TensorNetwork library
  (contraction, singular value decomposition, matrix-product-state updates) are not part
  of the device; their results are kept as \<open>Lib s op args\<close>: the array, of shape \<open>s\<close>, that
  the routine \<open>op\<close> returns on the arrays \<open>args\<close>.
\<close>

datatype libop =
    Contract string "nat list" "(edge \<times> edge) list" "edge list"
      \<comment> \<open>\<^verbatim>\<open>contract_fns[method](nodes, output_edge_order)\<close>: the method, the numbers of the
          nodes (their tensors are the arguments), the connected edge pairs, the output order\<close>
  | ContractBetween "(nat \<times> nat) list"
      \<comment> \<open>\<^verbatim>\<open>tn.contract_between(a, b)\<close> over the given pairs of axes of \<open>a\<close> and \<open>b\<close>\<close>
  | Conj            \<comment> \<open>\<^verbatim>\<open>tn.conj\<close>\<close>
  | Squeeze         \<comment> \<open>\<^verbatim>\<open>np.squeeze\<close> of a library result\<close>
  | Reshape         \<comment> \<open>\<^verbatim>\<open>np.reshape\<close> of a library result\<close>
  | ExpandDims      \<comment> \<open>\<^verbatim>\<open>np.expand_dims\<close> of a library result\<close>
  | MatMul          \<comment> \<open>\<^verbatim>\<open>@\<close> on a library result\<close>
  | SplitLeft       \<comment> \<open>the factor \<open>U\<close> of \<^verbatim>\<open>tn.split_node\<close>\<close>
  | SplitRight      \<comment> \<open>the factor \<open>DV\<close> of \<^verbatim>\<open>tn.split_node\<close>\<close>
  | OneSiteGate     \<comment> \<open>the updated site tensor of \<^verbatim>\<open>apply_one_site_gate\<close>\<close>
  | TwoSiteGateLeft   \<comment> \<open>the updated left site tensor of \<^verbatim>\<open>apply_two_site_gate\<close>\<close>
  | TwoSiteGateRight  \<comment> \<open>the updated right site tensor of \<^verbatim>\<open>apply_two_site_gate\<close>\<close>
  | MeasureLocal nat  \<comment> \<open>\<^verbatim>\<open>measure_local_operator(ops, sites)[0]\<close> at the given site\<close>
  | Network "(edge \<times> edge) list"
      \<comment> \<open>the scalar a closed network contracts to; edges name the arguments by position\<close>
  | NaN             \<comment> \<open>\<^verbatim>\<open>np.array(None, dtype=complex)\<close>\<close>

datatype tensor =
    Arr "nat list" "complex list"
  | Lib "nat list" libop "tensor list"

fun shape :: "tensor \<Rightarrow> nat list" where
  "shape (Arr s d) = s"
| "shape (Lib s f ts) = s"

definition ndim :: "tensor \<Rightarrow> nat" where
  "ndim t = length (shape t)"

datatype node = Node (node_id: nat) (node_name: string) (node_tensor: tensor)

text \<open>\<^verbatim>\<open>node[i]\<close> and \<^verbatim>\<open>node.edges\<close>: one edge per axis of the node's tensor.\<close>

definition node_edge :: "node \<Rightarrow> int \<Rightarrow> edge option" where
  "node_edge n i = map_option (Edge (node_id n)) (py_pos (ndim (node_tensor n)) i)"

definition edges :: "node \<Rightarrow> edge list" where
  "edges n = map (Edge (node_id n)) [0..<ndim (node_tensor n)]"

subsection \<open>NumPy operations used by the device\<close>

definition np_reshape :: "tensor \<Rightarrow> nat list \<Rightarrow> error + tensor" where
  "np_reshape t s =
     (if prod_list (shape t) \<noteq> prod_list s then Inl NumpyError
      else case t of Arr _ d \<Rightarrow> Inr (Arr s d) | _ \<Rightarrow> Inr (Lib s Reshape [t]))"

text \<open>\<^verbatim>\<open>np.expand_dims(t, 0)\<close> and \<^verbatim>\<open>np.expand_dims(t, -1)\<close>.\<close>

definition expand_dims_first :: "tensor \<Rightarrow> tensor" where
  "expand_dims_first t =
     (case t of Arr s d \<Rightarrow> Arr (1 # s) d | _ \<Rightarrow> Lib (1 # shape t) ExpandDims [t])"

definition expand_dims_last :: "tensor \<Rightarrow> tensor" where
  "expand_dims_last t =
     (case t of Arr s d \<Rightarrow> Arr (s @ [1]) d | _ \<Rightarrow> Lib (shape t @ [1]) ExpandDims [t])"

definition np_squeeze :: "tensor \<Rightarrow> tensor" where
  "np_squeeze t =
     (case t of
        Arr s d \<Rightarrow> Arr (filter (\<lambda>k. k \<noteq> 1) s) d
      | _ \<Rightarrow> Lib (filter (\<lambda>k. k \<noteq> 1) (shape t)) Squeeze [t])"

text \<open>
  \<^verbatim>\<open>A @ B\<close>.  For two-dimensional arrays with known entries this is the matrix product,
  entry \<open>(i, j)\<close> being \<open>\<Sum>k. A[i, k] * B[k, j]\<close>.  Operator matrices are two-dimensional;
  for arrays of another rank, and for arrays whose inner dimensions differ, NumPy raises
  \<^verbatim>\<open>ValueError\<close> (the broadcasting of stacks of matrices is not modelled).
\<close>

definition matmul_data :: "nat \<Rightarrow> nat \<Rightarrow> nat \<Rightarrow> complex list \<Rightarrow> complex list \<Rightarrow> complex list" where
  "matmul_data m k n a b =
     concat (map (\<lambda>i. map (\<lambda>j. sum_list (map (\<lambda>l. a ! (i * k + l) * b ! (l * n + j)) [0..<k]))
                          [0..<n]) [0..<m])"

definition np_matmul :: "tensor \<Rightarrow> tensor \<Rightarrow> error + tensor" where
  "np_matmul a b =
     (case (shape a, shape b) of
        ([m, k], [k', n]) \<Rightarrow>
          if k \<noteq> k' then Inl NumpyError
          else (case (a, b) of
                  (Arr _ da, Arr _ db) \<Rightarrow> Inr (Arr [m, n] (matmul_data m k n da db))
                | _ \<Rightarrow> Inr (Lib [m, n] MatMul [a, b]))
      | _ \<Rightarrow> Inl NumpyError)"


section \<open>The device\<close>

text \<open>
  A parameter of an operation: a number, an array, or an array of integers (the argument
  of \<^verbatim>\<open>BasisState\<close>).
\<close>

datatype param = Num real | Array tensor | Ints "int list"

text \<open>\<^verbatim>\<open>np.array(p, dtype=complex)\<close>.\<close>

fun np_array :: "param \<Rightarrow> tensor" where
  "np_array (Num r) = Arr [] [complex_of_real r]"
| "np_array (Array t) = t"
| "np_array (Ints xs) = Arr [length xs] (map of_int xs)"

text \<open>
  The values of the operator catalogue come from the module \<^verbatim>\<open>numpy_ops\<close>, which is not
  part of the device: a value is \<^verbatim>\<open>None\<close>, a fixed matrix, or a function of the
  parameters.  The module is a parameter \<open>ops\<close> of the construction, looked up by
  attribute name.
\<close>

datatype op_value = PyNone | Matrix tensor | Callable "param list \<Rightarrow> error + tensor"

definition operation_map :: "(string \<Rightarrow> op_value) \<Rightarrow> (string \<times> op_value) list" where
  "operation_map ops =
     [(''BasisState'', PyNone),
      (''QubitStateVector'', PyNone),
      (''QubitUnitary'', ops ''unitary''),
      (''PauliX'', ops ''X''),
      (''PauliY'', ops ''Y''),
      (''PauliZ'', ops ''Z''),
      (''Hadamard'', ops ''H''),
      (''S'', ops ''S''),
      (''T'', ops ''T''),
      (''CNOT'', ops ''CNOT''),
      (''SWAP'', ops ''SWAP''),
      (''CSWAP'', ops ''CSWAP''),
      (''Toffoli'', ops ''Toffoli''),
      (''CZ'', ops ''CZ''),
      (''PhaseShift'', ops ''Rphi''),
      (''RX'', ops ''Rotx''),
      (''RY'', ops ''Roty''),
      (''RZ'', ops ''Rotz''),
      (''Rot'', ops ''Rot3''),
      (''CRX'', ops ''CRotx''),
      (''CRY'', ops ''CRoty''),
      (''CRZ'', ops ''CRotz''),
      (''CRot'', ops ''CRot3'')]"

definition observable_map :: "(string \<Rightarrow> op_value) \<Rightarrow> (string \<times> op_value) list" where
  "observable_map ops =
     [(''PauliX'', ops ''X''),
      (''PauliY'', ops ''Y''),
      (''PauliZ'', ops ''Z''),
      (''Hadamard'', ops ''H''),
      (''Hermitian'', ops ''hermitian''),
      (''Identity'', ops ''identity'')]"

text \<open>\<^verbatim>\<open>contract_fns\<close>: the names of the contraction methods of the library.\<close>

definition contract_fns :: "string list" where
  "contract_fns = [''greedy'', ''branch'', ''optimal'', ''auto'']"

text \<open>
  The attributes of a \<^verbatim>\<open>DefaultTensor\<close> instance.  \<open>connections\<close> and \<open>next_id\<close> are not
  attributes of the class: they hold what \<^verbatim>\<open>tn.connect\<close> and \<^verbatim>\<open>tn.Node\<close> do to the
  object graph (the pairs of edges joined so far, and the number of the next node).
\<close>

record device =
  num_wires :: nat
  shots :: nat
  rep :: string
  contraction_method :: string
  operation_and_observable_map :: "string \<rightharpoonup> op_value"
  nodes :: "string \<rightharpoonup> node list"
  free_wire_edges :: "edge list"
  mps :: "node list option"
  contracted_state_node :: "node option"
  connections :: "(edge \<times> edge) list"
  next_id :: nat

text \<open>
  A method of the device takes the instance and returns its result, or the exception it
  raised, together with the instance as the call left it.
\<close>

type_synonym 'a action = "device \<Rightarrow> (error + 'a) \<times> device"

definition ret :: "'a \<Rightarrow> 'a action" where
  "ret x d = (Inr x, d)"

definition raise :: "error \<Rightarrow> 'a action" where
  "raise e d = (Inl e, d)"

definition bnd :: "'a action \<Rightarrow> ('a \<Rightarrow> 'b action) \<Rightarrow> 'b action" where
  "bnd m f d = (case m d of (Inl e, d') \<Rightarrow> (Inl e, d') | (Inr x, d') \<Rightarrow> f x d')"

definition lift :: "error + 'a \<Rightarrow> 'a action" where
  "lift r d = (r, d)"

definition lift_opt :: "error \<Rightarrow> 'a option \<Rightarrow> 'a action" where
  "lift_opt e r d = (case r of None \<Rightarrow> (Inl e, d) | Some x \<Rightarrow> (Inr x, d))"

subsection \<open>TensorNetwork operations on the object graph\<close>

text \<open>\<^verbatim>\<open>tn.Node(A, name=name)\<close>: a new node, with one dangling edge per axis.\<close>

definition tn_Node :: "tensor \<Rightarrow> string \<Rightarrow> device \<Rightarrow> node \<times> device" where
  "tn_Node A name d = (Node (next_id d) name A, d\<lparr>next_id := next_id d + 1\<rparr>)"

definition dangling :: "(edge \<times> edge) list \<Rightarrow> edge \<Rightarrow> bool" where
  "dangling cs e = (e \<notin> set (map fst cs) \<and> e \<notin> set (map snd cs))"

text \<open>\<^verbatim>\<open>tn.connect(e1, e2)\<close> joins two distinct dangling edges and refuses anything else.\<close>

definition tn_connect :: "edge \<Rightarrow> edge \<Rightarrow> unit action" where
  "tn_connect e1 e2 d =
     (if e1 = e2 \<or> \<not> dangling (connections d) e1 \<or> \<not> dangling (connections d) e2
      then (Inl TNError, d)
      else (Inr (), d\<lparr>connections := connections d @ [(e1, e2)]\<rparr>))"

text \<open>
  \<^verbatim>\<open>tn.split_node(node, node[:2], node[2:])\<close>: the singular value decomposition that
  separates the first two axes from the rest.  The two factors are new nodes; their bond
  has the dimension \<open>min (s0 * s1) (s2 * ...)\<close>.
\<close>

definition tn_split_node :: "node \<Rightarrow> device \<Rightarrow> (node \<times> node) \<times> device" where
  "tn_split_node n d =
     (let t = node_tensor n;
          l = take 2 (shape t);
          r = drop 2 (shape t);
          k = min (prod_list l) (prod_list r);
          (U, d1) = tn_Node (Lib (l @ [k]) SplitLeft [t]) [] d;
          (DV, d2) = tn_Node (Lib (k # r) SplitRight [t]) [] d1
      in ((U, DV), d2))"

text \<open>
  \<^verbatim>\<open>FiniteMPS.apply_one_site_gate(gate, site)\<close>: the library checks the site and replaces
  the node of the site by the contraction of the gate with it.
\<close>

definition mps_apply_one_site_gate :: "node \<Rightarrow> int \<Rightarrow> node list \<Rightarrow> device \<Rightarrow> (error + node list) \<times> device" where
  "mps_apply_one_site_gate g site ms d =
     (if site < 0 \<or> int (length ms) \<le> site then (Inl TNError, d)
      else let old = ms ! nat site;
               (new, d1) = tn_Node (Lib (shape (node_tensor old)) OneSiteGate
                                       [node_tensor g, node_tensor old]) (node_name old) d
           in (Inr (ms[nat site := new]), d1))"

text \<open>
  \<^verbatim>\<open>FiniteMPS.apply_two_site_gate(gate, site1, site2)\<close>: the library wants
  \<open>site2 = site1 + 1\<close> inside the chain, contracts the gate with the two nodes and splits
  the result again (no truncation is requested by the device).
\<close>

definition mps_apply_two_site_gate :: "node \<Rightarrow> int \<Rightarrow> int \<Rightarrow> node list \<Rightarrow> device \<Rightarrow> (error + node list) \<times> device" where
  "mps_apply_two_site_gate g site1 site2 ms d =
     (if site1 < 0 \<or> int (length ms) \<le> site2 \<or> site2 \<noteq> site1 + 1 then (Inl TNError, d)
      else let a = ms ! nat site1;
               b = ms ! nat site2;
               sa = shape (node_tensor a);
               sb = shape (node_tensor b);
               k = min (prod_list (take 2 sa)) (prod_list (drop 1 sb));
               args = [node_tensor g, node_tensor a, node_tensor b];
               (l, d1) = tn_Node (Lib (take 2 sa @ [k]) TwoSiteGateLeft args) (node_name a) d;
               (r, d2) = tn_Node (Lib (k # drop 1 sb) TwoSiteGateRight args) (node_name b) d1
           in (Inr (ms[nat site1 := l, nat site2 := r]), d2))"


subsection \<open>Construction, reset and the node registry\<close>

definition clear_network_data :: "device \<Rightarrow> device" where
  "clear_network_data d =
     d\<lparr>nodes := Map.empty, free_wire_edges := [], mps := None,
       contracted_state_node := None, connections := [], next_id := 0\<rparr>"

text \<open>
  \<^verbatim>\<open>_add_node(A, wires, name, key)\<close>; \<open>A\<close> is an array (\<open>Inl\<close>) or already a node
  (\<open>Inr\<close>), which is renamed.
\<close>

definition add_node :: "tensor + node \<Rightarrow> int list \<Rightarrow> string \<Rightarrow> string \<Rightarrow> device \<Rightarrow> node \<times> device" where
  "add_node A wires name key d =
     (let name' = name @ tuple_repr wires;
          (node, d1) = (case A of
                          Inr n \<Rightarrow> (Node (node_id n) name' (node_tensor n), d)
                        | Inl t \<Rightarrow> tn_Node t name' d);
          old = (case nodes d1 key of None \<Rightarrow> [] | Some ns \<Rightarrow> ns)
      in (node, d1\<lparr>nodes := (nodes d1)(key \<mapsto> old @ [node])\<rparr>))"

text \<open>The loop of \<^verbatim>\<open>_add_initial_state_nodes\<close> for the exact representation.\<close>

fun add_exact_components :: "(tensor \<times> int list \<times> string) list \<Rightarrow> unit action" where
  "add_exact_components [] d = (Inr (), d)"
| "add_exact_components ((t, wires_seq, name) # rest) d =
     (if ndim t \<noteq> length wires_seq then (Inl ShapeMismatch, d)
      else let (node, d1) = add_node (Inl t) wires_seq name ''state'' d
           in add_exact_components rest
                (d1\<lparr>free_wire_edges := free_wire_edges d1 @ edges node\<rparr>))"

text \<open>
  The inner loop of the matrix-product-state branch, \<^verbatim>\<open>for idx, wire in
  enumerate(wires_seq)\<close>: every wire but the last splits a unitary factor off \<open>DV\<close>.
\<close>

fun tensor_of :: "tensor + node \<Rightarrow> tensor" where
  "tensor_of (Inl t) = t"
| "tensor_of (Inr n) = node_tensor n"

fun split_wires :: "string \<Rightarrow> nat \<Rightarrow> tensor + node \<Rightarrow> (nat \<times> int) list \<Rightarrow> node list \<Rightarrow> device
                    \<Rightarrow> node list \<times> device" where
  "split_wires name len DV [] acc d = (acc, d)"
| "split_wires name len DV ((idx, wire) # rest) acc d =
     (if int idx < int len - 1 then
        let (node, d1) = tn_Node (tensor_of DV) name d;
            ((U, DV'), d2) = tn_split_node node d1;
            (node', d3) = add_node (Inr U) [wire] name ''state'' d2
        in split_wires name len (Inr DV') rest (acc @ [node']) d3
      else
        let (node', d1) = add_node DV [wire] name ''state'' d
        in split_wires name len DV rest (acc @ [node']) d1)"

text \<open>The outer loop of the matrix-product-state branch; \<open>acc\<close> is the list \<^verbatim>\<open>nodes\<close>.\<close>

fun add_mps_components :: "(tensor \<times> int list \<times> string) list \<Rightarrow> node list \<Rightarrow> (node list) action" where
  "add_mps_components [] acc d = (Inr acc, d)"
| "add_mps_components ((t, wires_seq, name) # rest) acc d =
     (if ndim t \<noteq> length wires_seq then (Inl ShapeMismatch, d)
      else let t' = expand_dims_last (expand_dims_first t) in
        if shape t' = [1, 2, 1] then
          let (node, d1) = add_node (Inl t') wires_seq name ''state'' d
          in add_mps_components rest (acc @ [node]) d1
        else if wires_seq = [] then (Inl ValueError, d)
        else if Max (set wires_seq) - Min (set wires_seq) \<noteq> int (length wires_seq) - 1
          then (Inl NotSupported, d)
        else
          let (ns, d1) = split_wires name (length wires_seq) (Inl t')
                           (enumerate 0 wires_seq) acc d
          in add_mps_components rest ns d1)"

definition add_initial_state_nodes :: "tensor list \<Rightarrow> int list list \<Rightarrow> string list \<Rightarrow> unit action" where
  "add_initial_state_nodes tensors wires names d =
     (if \<not> (length tensors = length wires \<and> length wires = length names)
        then (Inl LengthMismatch, d)
      else if rep d = ''exact'' then
        add_exact_components (zip tensors (zip wires names)) (d\<lparr>free_wire_edges := []\<rparr>)
      else if rep d = ''mps'' then
        (case add_mps_components (zip tensors (zip wires names)) [] d of
           (Inl e, d1) \<Rightarrow> (Inl e, d1)
         | (Inr ns, d1) \<Rightarrow>
             (case those (map (\<lambda>n. node_edge n 1) ns) of
                None \<Rightarrow> (Inl IndexError, d1\<lparr>mps := Some ns\<rparr>)
              | Some es \<Rightarrow> (Inr (), d1\<lparr>mps := Some ns, free_wire_edges := es\<rparr>)))
      else (Inr (), d))"

definition zero_state :: tensor where
  "zero_state = Arr [2] [1, 0]"

definition reset :: "unit action" where
  "reset d =
     add_initial_state_nodes
       (replicate (num_wires d) zero_state)
       (map (\<lambda>w. [w]) (py_range (num_wires d)))
       (replicate (num_wires d) ''ZeroState'')
       (clear_network_data d)"

text \<open>
  \<^verbatim>\<open>DefaultTensor(wires, shots, representation, contraction_method)\<close>.  The constructor of
  the base class \<^verbatim>\<open>Device\<close> stores the number of wires and the number of shots.
\<close>

definition init :: "(string \<Rightarrow> op_value) \<Rightarrow> nat \<Rightarrow> nat \<Rightarrow> string \<Rightarrow> string \<Rightarrow> error + device" where
  "init ops wires shots' rep' contraction_method' =
     (if rep' \<notin> set [''exact'', ''mps''] then Inl InvalidConfig
      else case reset \<lparr>num_wires = wires, shots = shots', rep = rep',
                       contraction_method = contraction_method',
                       operation_and_observable_map =
                         map_of (operation_map ops) ++ map_of (observable_map ops),
                       nodes = Map.empty, free_wire_edges = [], mps = None,
                       contracted_state_node = None, connections = [], next_id = 0\<rparr> of
             (Inl e, d) \<Rightarrow> Inl e
           | (Inr u, d) \<Rightarrow> Inr d)"

text \<open>The setter of the property \<^verbatim>\<open>contraction_method\<close>.\<close>

definition set_contraction_method :: "string \<Rightarrow> unit action" where
  "set_contraction_method method d =
     (if method \<notin> set contract_fns then (Inl InvalidConfig, d)
      else (Inr (), d\<lparr>contraction_method := method\<rparr>))"

subsection \<open>Applying operations\<close>

definition get_operator_matrix :: "string \<Rightarrow> param list \<Rightarrow> device \<Rightarrow> error + tensor" where
  "get_operator_matrix operation par d =
     (case operation_and_observable_map d operation of
        None \<Rightarrow> Inl KeyError
      | Some PyNone \<Rightarrow> Inr (Lib [] NaN [])
      | Some (Matrix A) \<Rightarrow> Inr A
      | Some (Callable A) \<Rightarrow> A par)"

definition add_state_prep_nodes :: "string \<Rightarrow> param list \<Rightarrow> unit action" where
  "add_state_prep_nodes operation par d =
     (if operation = ''QubitStateVector'' then
        (case par of
           [] \<Rightarrow> (Inl IndexError, d)
         | p # ps \<Rightarrow>
             let state_vector = np_array p in
             if ndim state_vector = 1 \<and> shape state_vector ! 0 = 2 ^ num_wires d then
               (case np_reshape state_vector (replicate (num_wires d) 2) of
                  Inl e \<Rightarrow> (Inl e, d)
                | Inr t \<Rightarrow> add_initial_state_nodes [t] [py_range (num_wires d)] [operation] d)
             else (Inl ShapeMismatch, d))
      else if operation = ''BasisState'' then
        (case par of
           [] \<Rightarrow> (Inl IndexError, d)
         | Ints xs # ps \<Rightarrow>
             let n = length xs in
             if n = 0 \<or> n > num_wires d \<or> \<not> set xs \<subseteq> {0, 1} then (Inl InvalidWires, d)
             else
               (case those (map (py_get xs) (py_range (num_wires d))) of
                  None \<Rightarrow> (Inl IndexError, d)
                | Some vs \<Rightarrow>
                    add_initial_state_nodes
                      (map (\<lambda>v. if v = 0 then zero_state else Arr [2] [0, 1]) vs)
                      (map (\<lambda>w. [w]) (py_range (num_wires d)))
                      (replicate (num_wires d) operation) d)
         | p # ps \<Rightarrow> (Inl TypeError, d))
      else (Inl UnboundLocalError, d))"

text \<open>The loop of \<^verbatim>\<open>_add_gate_nodes\<close> for the exact representation.\<close>

fun connect_gate :: "node \<Rightarrow> nat \<Rightarrow> (nat \<times> int) list \<Rightarrow> unit action" where
  "connect_gate op_node num [] d = (Inr (), d)"
| "connect_gate op_node num ((idx, w) # rest) d =
     (case node_edge op_node (int (num + idx)) of
        None \<Rightarrow> (Inl IndexError, d)
      | Some e_in \<Rightarrow>
     (case py_get (free_wire_edges d) w of
        None \<Rightarrow> (Inl IndexError, d)
      | Some e_free \<Rightarrow>
     (case tn_connect e_in e_free d of
        (Inl e, d1) \<Rightarrow> (Inl e, d1)
      | (Inr u, d1) \<Rightarrow>
     (case node_edge op_node (int idx) of
        None \<Rightarrow> (Inl IndexError, d1)
      | Some e_out \<Rightarrow>
     (case py_set (free_wire_edges d1) w e_out of
        None \<Rightarrow> (Inl IndexError, d1)
      | Some es \<Rightarrow> connect_gate op_node num rest (d1\<lparr>free_wire_edges := es\<rparr>))))))"

text \<open>\<^verbatim>\<open>self._free_wire_edges[wire] = self.mps.nodes[wire][1]\<close> for each of the wires.\<close>

fun refresh_free_wire_edges :: "int list \<Rightarrow> unit action" where
  "refresh_free_wire_edges [] d = (Inr (), d)"
| "refresh_free_wire_edges (wire # rest) d =
     (case mps d of
        None \<Rightarrow> (Inl AttributeError, d)
      | Some ms \<Rightarrow>
     (case py_get ms wire of
        None \<Rightarrow> (Inl IndexError, d)
      | Some n \<Rightarrow>
     (case node_edge n 1 of
        None \<Rightarrow> (Inl IndexError, d)
      | Some e \<Rightarrow>
     (case py_set (free_wire_edges d) wire e of
        None \<Rightarrow> (Inl IndexError, d)
      | Some es \<Rightarrow> refresh_free_wire_edges rest (d\<lparr>free_wire_edges := es\<rparr>)))))"

text \<open>The branch \<^verbatim>\<open>elif self._rep == "mps"\<close> of \<^verbatim>\<open>_add_gate_nodes\<close>.\<close>

definition add_gate_mps :: "node \<Rightarrow> int list \<Rightarrow> unit action" where
  "add_gate_mps op_node ws d =
     (if length ws = 1 then
        (case mps d of
           None \<Rightarrow> (Inl AttributeError, d)
         | Some ms \<Rightarrow>
        (case mps_apply_one_site_gate op_node (ws ! 0) ms d of
           (Inl e, d1) \<Rightarrow> (Inl e, d1)
         | (Inr ms', d1) \<Rightarrow> refresh_free_wire_edges [ws ! 0] (d1\<lparr>mps := Some ms'\<rparr>)))
      else if length ws = 2 then
        (if \<bar>ws ! 1 - ws ! 0\<bar> = 1 then
           (case mps d of
              None \<Rightarrow> (Inl AttributeError, d)
            | Some ms \<Rightarrow>
           (case mps_apply_two_site_gate op_node (ws ! 0) (ws ! 1) ms d of
              (Inl e, d1) \<Rightarrow> (Inl e, d1)
            | (Inr ms', d1) \<Rightarrow> refresh_free_wire_edges ws (d1\<lparr>mps := Some ms'\<rparr>)))
         else (Inl NotSupported, d))
      else (Inl NotSupported, d))"

text \<open>\<^verbatim>\<open>_add_gate_nodes(operation, wires, par)\<close>.\<close>

definition add_gate_nodes :: "string \<Rightarrow> int list option \<Rightarrow> param list \<Rightarrow> unit action" where
  "add_gate_nodes operation wires par d =
     (case get_operator_matrix operation par d of
        Inl e \<Rightarrow> (Inl e, d)
      | Inr A \<Rightarrow>
     (case wires of
        None \<Rightarrow> (Inl TypeError, d)
      | Some ws \<Rightarrow>
     (case np_reshape A (replicate (length ws * 2) 2) of
        Inl e \<Rightarrow> (Inl e, d)
      | Inr A' \<Rightarrow>
     (case add_node (Inl A') ws operation ''state'' d of
        (op_node, d1) \<Rightarrow>
          if rep d1 = ''exact'' then connect_gate op_node (length ws) (enumerate 0 ws) d1
          else if rep d1 = ''mps'' then add_gate_mps op_node ws d1
          else (Inr (), d1)))))"

text \<open>\<^verbatim>\<open>apply(operation, wires, par)\<close>; \<open>wires\<close> may be \<^verbatim>\<open>None\<close>.\<close>

definition dev_apply :: "string \<Rightarrow> int list option \<Rightarrow> param list \<Rightarrow> unit action" where
  "dev_apply operation wires par d =
     (if operation \<in> set [''QubitStateVector'', ''BasisState''] then
        (if (case wires of None \<Rightarrow> False | Some ws \<Rightarrow> ws \<noteq> [] \<and> ws \<noteq> py_range (num_wires d))
           then (Inl InvalidWires, d)
         else add_state_prep_nodes operation par (clear_network_data d))
      else add_gate_nodes operation wires par d)"


subsection \<open>Contraction of the state network\<close>

text \<open>The dimension of an edge, looked up in the node it belongs to.\<close>

definition edge_dim :: "node list \<Rightarrow> edge \<Rightarrow> nat option" where
  "edge_dim ns e =
     (case filter (\<lambda>n. node_id n = edge_node e) ns of
        [] \<Rightarrow> None
      | n # ms \<Rightarrow> if edge_axis e < ndim (node_tensor n)
                 then Some (shape (node_tensor n) ! edge_axis e) else None)"

text \<open>
  \<^verbatim>\<open>contract_fn(nodes, output_edge_order=edges)\<close>: the library contracts the connected
  edges of the nodes and returns one node whose axes are the given dangling edges, in
  that order.  The registry and the connections of the device are left as they are.
\<close>

definition tn_contract :: "string \<Rightarrow> node list \<Rightarrow> edge list \<Rightarrow> node action" where
  "tn_contract method ns out d =
     (case those (map (edge_dim ns) out) of
        None \<Rightarrow> (Inl TNError, d)
      | Some dims \<Rightarrow>
          (case tn_Node (Lib dims (Contract method (map node_id ns) (connections d) out)
                           (map node_tensor ns)) [] d of
             (ket, d1) \<Rightarrow> (Inr ket, d1)))"

text \<open>
  The loop of the matrix-product-state branch of \<^verbatim>\<open>_contract_premeasurement_network\<close>:
  \<^verbatim>\<open>tn.connect(prev_node[-1], node[0])\<close>, then \<^verbatim>\<open>tn.contract_between(prev_node, node)\<close>,
  which returns a new node with the axes of \<open>prev_node\<close> but the last, then the axes of
  \<open>node\<close> but the first.  The connection made by a step is used up by the same step.
\<close>

fun contract_chain :: "node \<Rightarrow> node list \<Rightarrow> node action" where
  "contract_chain prev [] d = (Inr prev, d)"
| "contract_chain prev (n # rest) d =
     (if ndim (node_tensor prev) = 0 \<or> ndim (node_tensor n) = 0 then (Inl IndexError, d)
      else case tn_Node (Lib (butlast (shape (node_tensor prev)) @ tl (shape (node_tensor n)))
                           (ContractBetween [(ndim (node_tensor prev) - 1, 0)])
                           [node_tensor prev, node_tensor n]) [] d of
             (prev', d1) \<Rightarrow> contract_chain prev' rest d1)"

text \<open>
  An assignment to an attribute of a node (\<^verbatim>\<open>ket.tensor = ...\<close>, \<^verbatim>\<open>ket.set_name(...)\<close>)
  is seen wherever the device holds that node: in the registry and in the chain.
\<close>

definition update_node :: "node \<Rightarrow> device \<Rightarrow> device" where
  "update_node n d =
     (let upd = map (\<lambda>m. if node_id m = node_id n then n else m)
      in d\<lparr>nodes := (\<lambda>key. map_option upd (nodes d key)), mps := map_option upd (mps d)\<rparr>)"

definition contract_premeasurement_network :: "unit action" where
  "contract_premeasurement_network d =
     (case contracted_state_node d of
        Some ket \<Rightarrow> (Inr (), d)
      | None \<Rightarrow>
          if rep d = ''exact'' then
            (if contraction_method d \<notin> set contract_fns then (Inl KeyError, d)
             else case nodes d ''state'' of
                    None \<Rightarrow> (Inl KeyError, d)
                  | Some ns \<Rightarrow>
                      (case tn_contract (contraction_method d) ns (free_wire_edges d) d of
                         (Inl e, d1) \<Rightarrow> (Inl e, d1)
                       | (Inr ket, d1) \<Rightarrow>
                           (Inr (), d1\<lparr>contracted_state_node :=
                                          Some (Node (node_id ket) ''Ket'' (node_tensor ket))\<rparr>)))
          else if rep d = ''mps'' then
            (case mps d of
               None \<Rightarrow> (Inl AttributeError, d)
             | Some [] \<Rightarrow> (Inl UnboundLocalError, d)
             | Some (n # rest) \<Rightarrow>
                 (case contract_chain n rest d of
                    (Inl e, d1) \<Rightarrow> (Inl e, d1)
                  | (Inr prev, d1) \<Rightarrow>
                      (let ket = Node (node_id prev) ''Ket'' (np_squeeze (node_tensor prev))
                       in (Inr (), (update_node ket d1)\<lparr>contracted_state_node := Some ket\<rparr>))))
          else (Inl UnboundLocalError, d))"

text \<open>\<^verbatim>\<open>_state()\<close>.\<close>

definition state :: "tensor action" where
  "state d =
     (case contract_premeasurement_network d of
        (Inl e, d1) \<Rightarrow> (Inl e, d1)
      | (Inr u, d1) \<Rightarrow>
          (case contracted_state_node d1 of
             None \<Rightarrow> (Inl AttributeError, d1)
           | Some ket \<Rightarrow> (Inr (np_squeeze (node_tensor ket)), d1)))"


subsection \<open>Expectation values\<close>

text \<open>
  The networks that \<^verbatim>\<open>_ev_exact\<close> and \<^verbatim>\<open>_ev_mps\<close> build live only inside the call: their
  nodes are named by position and their connections are kept in a list of their own,
  which the closing contractions use up.  \<open>net_connect\<close> is \<^verbatim>\<open>tn.connect\<close> on such a list;
  an edge that does not exist is Python's \<^verbatim>\<open>IndexError\<close>.
\<close>

definition net_connect :: "edge option \<Rightarrow> edge option \<Rightarrow> (edge \<times> edge) list
                            \<Rightarrow> error + (edge \<times> edge) list" where
  "net_connect a b cs =
     (case a of
        None \<Rightarrow> Inl IndexError
      | Some e1 \<Rightarrow>
     (case b of
        None \<Rightarrow> Inl IndexError
      | Some e2 \<Rightarrow>
          if e1 = e2 \<or> \<not> dangling cs e1 \<or> \<not> dangling cs e2 then Inl TNError
          else Inr (cs @ [(e1, e2)])))"

text \<open>The node at a position of a local network (names play no part in a contraction).\<close>

definition at_pos :: "nat \<Rightarrow> node \<Rightarrow> node" where
  "at_pos p n = Node p [] (node_tensor n)"

text \<open>\<^verbatim>\<open>tn.contract_between(a, b)\<close> wants an edge between its two arguments.\<close>

definition linked :: "(edge \<times> edge) list \<Rightarrow> nat set \<Rightarrow> nat set \<Rightarrow> bool" where
  "linked cs A B =
     (\<exists>c \<in> set cs. (edge_node (fst c) \<in> A \<and> edge_node (snd c) \<in> B)
                 \<or> (edge_node (fst c) \<in> B \<and> edge_node (snd c) \<in> A))"

text \<open>The dimensions of the edges of a local network that are left dangling.\<close>

definition dangling_dims :: "tensor list \<Rightarrow> (edge \<times> edge) list \<Rightarrow> nat list" where
  "dangling_dims ts cs =
     concat (map (\<lambda>(p, t). map (\<lambda>k. shape t ! k)
                              (filter (\<lambda>k. dangling cs (Edge p k)) [0..<ndim t]))
                 (enumerate 0 ts))"

text \<open>The contraction of a whole local network, once every \<^verbatim>\<open>contract_between\<close> is done.\<close>

definition contract_network :: "tensor list \<Rightarrow> (edge \<times> edge) list \<Rightarrow> tensor" where
  "contract_network ts cs = Lib (dangling_dims ts cs) (Network cs) ts"

text \<open>\<^verbatim>\<open>tn.conj(node)\<close>.\<close>

definition tn_conj :: "node \<Rightarrow> string \<Rightarrow> node" where
  "tn_conj n name = Node (node_id n) name (Lib (shape (node_tensor n)) Conj [node_tensor n])"

text \<open>
  The inner loop of \<^verbatim>\<open>_ev_exact\<close>, \<^verbatim>\<open>for idx, w in enumerate(obs_wires)\<close>; \<open>len\<close> is
  \<^verbatim>\<open>len(obs_wires)\<close>.
\<close>

fun connect_observable :: "node \<Rightarrow> node \<Rightarrow> node \<Rightarrow> nat \<Rightarrow> (nat \<times> int) list
                            \<Rightarrow> (edge \<times> edge) list \<Rightarrow> error + (edge \<times> edge) list" where
  "connect_observable ket bra obs_node len [] cs = Inr cs"
| "connect_observable ket bra obs_node len ((idx, w) # rest) cs =
     (case net_connect (node_edge obs_node (int (len + idx))) (node_edge ket w) cs of
        Inl e \<Rightarrow> Inl e
      | Inr cs1 \<Rightarrow>
     (case net_connect (node_edge bra w) (node_edge obs_node (int idx)) cs1 of
        Inl e \<Rightarrow> Inl e
      | Inr cs2 \<Rightarrow> connect_observable ket bra obs_node len rest cs2))"

text \<open>The outer loop, \<^verbatim>\<open>for obs_node, obs_wires in zip(obs_nodes, wires)\<close>.\<close>

fun connect_observables :: "node \<Rightarrow> node \<Rightarrow> (node \<times> int list) list
                             \<Rightarrow> (edge \<times> edge) list \<Rightarrow> error + (edge \<times> edge) list" where
  "connect_observables ket bra [] cs = Inr cs"
| "connect_observables ket bra ((obs_node, obs_wires) # rest) cs =
     (case connect_observable ket bra obs_node (length obs_wires) (enumerate 0 obs_wires) cs of
        Inl e \<Rightarrow> Inl e
      | Inr cs1 \<Rightarrow> connect_observables ket bra rest cs1)"

text \<open>\<^verbatim>\<open>for w in set(all_wires) - set(meas_wires): tn.connect(bra[w], ket[w])\<close>.\<close>

fun connect_unmeasured :: "node \<Rightarrow> node \<Rightarrow> int list \<Rightarrow> (edge \<times> edge) list
                            \<Rightarrow> error + (edge \<times> edge) list" where
  "connect_unmeasured ket bra [] cs = Inr cs"
| "connect_unmeasured ket bra (w # rest) cs =
     (case net_connect (node_edge bra w) (node_edge ket w) cs of
        Inl e \<Rightarrow> Inl e
      | Inr cs1 \<Rightarrow> connect_unmeasured ket bra rest cs1)"

text \<open>
  The measurement network of \<^verbatim>\<open>_ev_exact\<close> and its contraction, for the contracted
  state \<open>ket0\<close>.  In the local network the ket is at position 0, the \<open>i\<close>-th observable at
  position \<open>i + 1\<close> and the bra behind them.  The closing loop contracts every observable
  with what has been contracted so far (the ket and the observables before it), and the
  bra last.
\<close>

definition exact_network :: "node \<Rightarrow> node list \<Rightarrow> int list list \<Rightarrow> nat \<Rightarrow> error + tensor" where
  "exact_network ket0 obs_nodes wires n =
     (let m = length obs_nodes;
          ket = at_pos 0 ket0;
          bra = at_pos (m + 1) (tn_conj ket0 ''Bra'');
          obs = map (\<lambda>(i, k). at_pos (i + 1) k) (enumerate 0 obs_nodes);
          meas_wires = concat (map snd (zip obs_nodes wires))
      in
     (case connect_observables ket bra (zip obs wires) [] of
        Inl e \<Rightarrow> Inl e
      | Inr cs1 \<Rightarrow>
     (case connect_unmeasured ket bra
             (filter (\<lambda>w. w \<notin> set meas_wires) (py_range n)) cs1 of
        Inl e \<Rightarrow> Inl e
      | Inr cs2 \<Rightarrow>
          if (\<forall>i \<in> set [0..<m]. linked cs2 {i + 1} (set [0..<i + 1]))
             \<and> linked cs2 {m + 1} (set [0..<m + 1])
          then Inr (contract_network (map node_tensor (ket # obs @ [bra])) cs2)
          else Inl TNError)))"

text \<open>\<^verbatim>\<open>_ev_exact(obs_nodes, wires)\<close>.\<close>

definition ev_exact :: "node list \<Rightarrow> int list list \<Rightarrow> tensor action" where
  "ev_exact obs_nodes wires d =
     (case contract_premeasurement_network d of
        (Inl e, d1) \<Rightarrow> (Inl e, d1)
      | (Inr u, d1) \<Rightarrow>
     (case contracted_state_node d1 of
        None \<Rightarrow> (Inl AttributeError, d1)
      | Some ket \<Rightarrow> (exact_network ket obs_nodes wires (num_wires d1), d1)))"

text \<open>\<^verbatim>\<open>nodes[wire][axis]\<close>.\<close>

definition get_edge :: "node list \<Rightarrow> int \<Rightarrow> int \<Rightarrow> edge option" where
  "get_edge ns wire axis = (case py_get ns wire of None \<Rightarrow> None | Some n \<Rightarrow> node_edge n axis)"

text \<open>
  \<^verbatim>\<open>FiniteMPS.measure_local_operator(ops, sites)[0]\<close> for one operator and one site; the
  site has to be in the chain.
\<close>

definition mps_measure_local_operator :: "node \<Rightarrow> int \<Rightarrow> node list \<Rightarrow> error + tensor" where
  "mps_measure_local_operator obs_node site ms =
     (if site < 0 \<or> int (length ms) \<le> site then Inl TNError
      else Inr (Lib [] (MeasureLocal (nat site)) (node_tensor obs_node # map node_tensor ms)))"

text \<open>The loops of the general branch of \<^verbatim>\<open>_ev_mps\<close>.\<close>

fun connect_observable_mps :: "node list \<Rightarrow> node list \<Rightarrow> node \<Rightarrow> nat \<Rightarrow> (nat \<times> int) list
                                \<Rightarrow> (edge \<times> edge) list \<Rightarrow> error + (edge \<times> edge) list" where
  "connect_observable_mps kets conj_nodes obs_node offset [] cs = Inr cs"
| "connect_observable_mps kets conj_nodes obs_node offset ((idx, wire) # rest) cs =
     (case net_connect (get_edge conj_nodes wire 1) (node_edge obs_node (int idx)) cs of
        Inl e \<Rightarrow> Inl e
      | Inr cs1 \<Rightarrow>
     (case net_connect (node_edge obs_node (int (offset + idx))) (get_edge kets wire 1) cs1 of
        Inl e \<Rightarrow> Inl e
      | Inr cs2 \<Rightarrow> connect_observable_mps kets conj_nodes obs_node offset rest cs2))"

fun connect_observables_mps :: "node list \<Rightarrow> node list \<Rightarrow> (node \<times> int list) list
                                 \<Rightarrow> (edge \<times> edge) list \<Rightarrow> error + (edge \<times> edge) list" where
  "connect_observables_mps kets conj_nodes [] cs = Inr cs"
| "connect_observables_mps kets conj_nodes ((obs_node, wire_seq) # rest) cs =
     (if length wire_seq = 2 \<and> \<bar>wire_seq ! 0 - wire_seq ! 1\<bar> > 1 then Inl NotSupported
      else case connect_observable_mps kets conj_nodes obs_node (length wire_seq)
                  (enumerate 0 wire_seq) cs of
             Inl e \<Rightarrow> Inl e
           | Inr cs1 \<Rightarrow> connect_observables_mps kets conj_nodes rest cs1)"

text \<open>\<^verbatim>\<open>for wire in range(self.num_wires)\<close>: the unmeasured wires and the bonds.\<close>

fun connect_chain :: "node list \<Rightarrow> node list \<Rightarrow> int \<Rightarrow> int list \<Rightarrow> int list
                       \<Rightarrow> (edge \<times> edge) list \<Rightarrow> error + (edge \<times> edge) list" where
  "connect_chain kets conj_nodes n meas_wires [] cs = Inr cs"
| "connect_chain kets conj_nodes n meas_wires (wire # rest) cs =
     (case (if wire \<notin> set meas_wires
            then net_connect (get_edge conj_nodes wire 1) (get_edge kets wire 1) cs
            else Inr cs) of
        Inl e \<Rightarrow> Inl e
      | Inr cs1 \<Rightarrow>
          if wire \<noteq> n - 1 then
            (case net_connect (get_edge kets wire 2) (get_edge kets (wire + 1) 0) cs1 of
               Inl e \<Rightarrow> Inl e
             | Inr cs2 \<Rightarrow>
            (case net_connect (get_edge conj_nodes wire 2) (get_edge conj_nodes (wire + 1) 0) cs2 of
               Inl e \<Rightarrow> Inl e
             | Inr cs3 \<Rightarrow> connect_chain kets conj_nodes n meas_wires rest cs3))
          else connect_chain kets conj_nodes n meas_wires rest cs1)"

text \<open>
  The measurement network of the general branch of \<^verbatim>\<open>_ev_mps\<close> and its contraction, for
  the chain \<open>ms\<close>.  In the local network the node of wire \<open>w\<close> is at position \<open>w\<close>, its
  conjugate at position \<open>N + w\<close> and the \<open>i\<close>-th observable at position \<open>2 * N + i\<close>, \<open>N\<close>
  being the length of the chain.  The closing loops contract the bra chain and the ket
  chain, then every observable into the ket, then the bra.
\<close>

definition mps_network :: "node list \<Rightarrow> node list \<Rightarrow> int list list \<Rightarrow> nat \<Rightarrow> error + tensor" where
  "mps_network ms obs_nodes wires n =
     (let N = length ms;
          m = length obs_nodes;
          kets = map (\<lambda>(w, k). at_pos w k) (enumerate 0 ms);
          conj_nodes = map (\<lambda>(w, k). at_pos (N + w) (tn_conj k [])) (enumerate 0 ms);
          obs = map (\<lambda>(i, k). at_pos (2 * N + i) k) (enumerate 0 obs_nodes);
          meas_wires = concat (map snd (zip obs_nodes wires));
          chain = set [0..<max 1 n]
      in
     (case connect_observables_mps kets conj_nodes (zip obs wires) [] of
        Inl e \<Rightarrow> Inl e
      | Inr cs1 \<Rightarrow>
     (case connect_chain kets conj_nodes (int n) meas_wires (py_range n) cs1 of
        Inl e \<Rightarrow> Inl e
      | Inr cs2 \<Rightarrow>
          if ms = [] then Inl IndexError
          else if (\<forall>i \<in> set [0..<m].
                     linked cs2 {2 * N + i} (chain \<union> (+) (2 * N) ` set [0..<i]))
                  \<and> linked cs2 ((+) N ` chain) (chain \<union> (+) (2 * N) ` set [0..<m])
          then Inr (np_squeeze (contract_network (map node_tensor (kets @ conj_nodes @ obs)) cs2))
          else Inl TNError)))"

text \<open>\<^verbatim>\<open>_ev_mps(obs_nodes, wires)\<close>.\<close>

definition ev_mps :: "node list \<Rightarrow> int list list \<Rightarrow> tensor action" where
  "ev_mps obs_nodes wires d =
     (if \<exists>wires_seq \<in> set wires. length wires_seq > 2 then (Inl NotSupported, d)
      else if length obs_nodes = 1 \<and> wires = [] then (Inl IndexError, d)
      else case mps d of
        None \<Rightarrow> (Inl AttributeError, d)
      | Some ms \<Rightarrow>
          if length obs_nodes = 1 \<and> length (hd wires) = 1 then
            (mps_measure_local_operator (hd obs_nodes) (hd (hd wires)) ms, d)
          else (mps_network ms obs_nodes wires (num_wires d), d))"

text \<open>
  \<^verbatim>\<open>ev(obs_nodes, wires)\<close>.  The numbers inside a library result are not known to the
  model: \<open>num\<close> is the number that a zero-dimensional array holds.  The warning about a
  nonvanishing imaginary part changes neither the result nor the device and is left out.
  A result that is not zero-dimensional has no truth value and no real part that is a
  number (\<^verbatim>\<open>ValueError\<close>).
\<close>

definition ev :: "(tensor \<Rightarrow> complex) \<Rightarrow> node list \<Rightarrow> int list list \<Rightarrow> real action" where
  "ev num obs_nodes wires d =
     (case (if rep d = ''exact'' then ev_exact obs_nodes wires d
            else if rep d = ''mps'' then ev_mps obs_nodes wires d
            else (Inl UnboundLocalError, d)) of
        (Inl e, d1) \<Rightarrow> (Inl e, d1)
      | (Inr expval, d1) \<Rightarrow>
          if shape expval \<noteq> [] then (Inl ValueError, d1)
          else (Inr (Re (num expval)), d1))"


subsection \<open>Measurements\<close>

text \<open>
  The arguments of a measurement: one observable with its wires and parameters, or lists
  of them (\<^verbatim>\<open>isinstance(observable, list)\<close>).
\<close>

datatype measurement =
    Single string "int list" "param list"
  | Multiple "string list" "int list list" "param list list"

fun as_lists :: "measurement \<Rightarrow> string list \<times> int list list \<times> param list list" where
  "as_lists (Single observable wires par) = ([observable], [wires], [par])"
| "as_lists (Multiple observable wires par) = (observable, wires, par)"

text \<open>\<^verbatim>\<open>_create_nodes_from_tensors(tensors, wires, observable_names, key)\<close>.\<close>

fun create_nodes_from_tensors :: "(tensor \<times> int list \<times> string) list \<Rightarrow> string \<Rightarrow> device
                                   \<Rightarrow> node list \<times> device" where
  "create_nodes_from_tensors [] key d = ([], d)"
| "create_nodes_from_tensors ((A, w, name) # rest) key d =
     (let (n, d1) = add_node (Inl A) w name key d;
          (ns, d2) = create_nodes_from_tensors rest key d1
      in (n # ns, d2))"

text \<open>A list comprehension whose body can raise: the first exception ends it.\<close>

fun collect :: "('a \<Rightarrow> error + 'b) \<Rightarrow> 'a list \<Rightarrow> error + 'b list" where
  "collect f [] = Inr []"
| "collect f (x # xs) =
     (case f x of
        Inl e \<Rightarrow> Inl e
      | Inr y \<Rightarrow> (case collect f xs of Inl e \<Rightarrow> Inl e | Inr ys \<Rightarrow> Inr (y # ys)))"

text \<open>\<^verbatim>\<open>self._reshape(A, [2] * len(wires) * 2)\<close>.\<close>

definition reshape_for :: "tensor \<Rightarrow> int list \<Rightarrow> error + tensor" where
  "reshape_for A wires = np_reshape A (replicate (length wires * 2) 2)"

definition expval :: "(tensor \<Rightarrow> complex) \<Rightarrow> measurement \<Rightarrow> real action" where
  "expval num meas d =
     (case as_lists meas of (observable, wires, par) \<Rightarrow>
        (case collect (\<lambda>(ob, p, w).
                         case get_operator_matrix ob p d of
                           Inl e \<Rightarrow> Inl e
                         | Inr A \<Rightarrow> reshape_for A w)
                      (zip observable (zip par wires)) of
           Inl e \<Rightarrow> (Inl e, d)
         | Inr tensors \<Rightarrow>
             (case create_nodes_from_tensors (zip tensors (zip wires observable))
                     ''observables'' d of
                (obs_nodes, d1) \<Rightarrow> ev num obs_nodes wires d1)))"

definition var :: "(tensor \<Rightarrow> complex) \<Rightarrow> measurement \<Rightarrow> real action" where
  "var num meas d =
     (case as_lists meas of (observable, wires, par) \<Rightarrow>
        (case collect (\<lambda>(ob, p). get_operator_matrix ob p d) (zip observable par) of
           Inl e \<Rightarrow> (Inl e, d)
         | Inr matrices \<Rightarrow>
        (case collect (\<lambda>(A, w). reshape_for A w) (zip matrices wires) of
           Inl e \<Rightarrow> (Inl e, d)
         | Inr tensors \<Rightarrow>
        (case collect (\<lambda>(A, w). case np_matmul A A of
                                  Inl e \<Rightarrow> Inl e
                                | Inr AA \<Rightarrow> reshape_for AA w)
                      (zip matrices wires) of
           Inl e \<Rightarrow> (Inl e, d)
         | Inr tensors_of_squared_matrices \<Rightarrow>
        (case create_nodes_from_tensors (zip tensors (zip wires observable))
                ''observables'' d of
           (obs_nodes, d1) \<Rightarrow>
        (case create_nodes_from_tensors (zip tensors_of_squared_matrices (zip wires observable))
                ''observables'' d1 of
           (obs_nodes_for_squares, d2) \<Rightarrow>
        (case ev num obs_nodes_for_squares wires d2 of
           (Inl e, d3) \<Rightarrow> (Inl e, d3)
         | (Inr a, d3) \<Rightarrow>
        (case ev num obs_nodes wires d3 of
           (Inl e, d4) \<Rightarrow> (Inl e, d4)
         | (Inr b, d4) \<Rightarrow> (Inr (a - b ^ 2), d4)))))))))"

text \<open>
  The numerical services that \<^verbatim>\<open>sample\<close> takes from outside the device:
  \<^verbatim>\<open>ops.spectral_decomposition\<close> (eigenvalues and projectors of a matrix) and
  \<^verbatim>\<open>np.random.choice(a, size, p=p)\<close>.
\<close>

record backend =
  scalar :: "tensor \<Rightarrow> complex"
  spectral_decomposition :: "tensor \<Rightarrow> real list \<times> tensor list"
  random_choice :: "real list \<Rightarrow> nat \<Rightarrow> real list \<Rightarrow> error + real list"

text \<open>
  The body of \<^verbatim>\<open>for projs in projector_tensor_products\<close>: the inner loop registers the
  projectors as nodes, then the joint probability is their expectation value.
\<close>

fun projector_nodes :: "(tensor \<times> int list) list \<Rightarrow> (node list \<times> int list list) action" where
  "projector_nodes [] d = (Inr ([], []), d)"
| "projector_nodes ((proj, proj_wires) # rest) d =
     (case reshape_for proj proj_wires of
        Inl e \<Rightarrow> (Inl e, d)
      | Inr tensor \<Rightarrow>
          (case add_node (Inl tensor) proj_wires ''UnnamedNode'' ''observables'' d of
             (n, d1) \<Rightarrow>
               (case projector_nodes rest d1 of
                  (Inl e, d2) \<Rightarrow> (Inl e, d2)
                | (Inr (ns, ws), d2) \<Rightarrow> (Inr (n # ns, proj_wires # ws), d2))))"

fun joint_probabilities :: "(tensor \<Rightarrow> complex) \<Rightarrow> (tensor \<times> int list) list list
                             \<Rightarrow> (real list) action" where
  "joint_probabilities num [] d = (Inr [], d)"
| "joint_probabilities num (projs # rest) d =
     (case projector_nodes projs d of
        (Inl e, d1) \<Rightarrow> (Inl e, d1)
      | (Inr (obs_nodes, obs_wires), d1) \<Rightarrow>
     (case ev num obs_nodes obs_wires d1 of
        (Inl e, d2) \<Rightarrow> (Inl e, d2)
      | (Inr p, d2) \<Rightarrow>
     (case joint_probabilities num rest d2 of
        (Inl e, d3) \<Rightarrow> (Inl e, d3)
      | (Inr ps, d3) \<Rightarrow> (Inr (p # ps), d3))))"

text \<open>
  \<^verbatim>\<open>[[(proj, wires[idx]) for proj in proj_group] for idx, proj_group in
  enumerate(projector_groups)]\<close>; \<^verbatim>\<open>wires[idx]\<close> is read once per projector.
\<close>

definition with_wires :: "int list list \<Rightarrow> nat \<times> tensor list
                           \<Rightarrow> error + (tensor \<times> int list) list" where
  "with_wires wires g =
     (case g of (idx, proj_group) \<Rightarrow>
        collect (\<lambda>proj. case py_get wires (int idx) of
                           None \<Rightarrow> Inl IndexError
                         | Some w \<Rightarrow> Inr (proj, w)) proj_group)"

definition sample :: "backend \<Rightarrow> measurement \<Rightarrow> (real list) action" where
  "sample B meas d =
     (case as_lists meas of (observable, wires, par) \<Rightarrow>
        (case collect (\<lambda>(ob, p). get_operator_matrix ob p d) (zip observable par) of
           Inl e \<Rightarrow> (Inl e, d)
         | Inr matrices \<Rightarrow>
             let decompositions = map (spectral_decomposition B) matrices in
             if decompositions = [] then (Inl ValueError, d)
             else
               let eigenvalues = map fst decompositions;
                   projector_groups = map snd decompositions
               in
        (case collect (with_wires wires) (enumerate 0 projector_groups) of
           Inl e \<Rightarrow> (Inl e, d)
         | Inr projectors_with_wires \<Rightarrow>
             let joint_outcomes = product_lists eigenvalues;
                 projector_tensor_products = product_lists projectors_with_wires
             in
        (case joint_probabilities (scalar B) projector_tensor_products d of
           (Inl e, d1) \<Rightarrow> (Inl e, d1)
         | (Inr probabilities, d1) \<Rightarrow>
             (random_choice B (map prod_list joint_outcomes) (shots d1) probabilities, d1)))))"


section \<open>Example devices\<close>

text \<open>
  A module \<open>ops\<close> that holds the Pauli matrices \<open>X\<close> and \<open>Z\<close>, the identity and \<open>CNOT\<close>; its
  other attributes are not used by the examples.
\<close>

definition pauli_ops :: "string \<Rightarrow> op_value" where
  "pauli_ops a =
     (if a = ''X'' then Matrix (Arr [2, 2] [0, 1, 1, 0])
      else if a = ''Z'' then Matrix (Arr [2, 2] [1, 0, 0, - 1])
      else if a = ''identity'' then Matrix (Arr [2, 2] [1, 0, 0, 1])
      else if a = ''CNOT'' then
        Matrix (Arr [4, 4] [1, 0, 0, 0,  0, 1, 0, 0,  0, 0, 0, 1,  0, 0, 1, 0])
      else PyNone)"

text \<open>\<^verbatim>\<open>DefaultTensor(n, representation=r)\<close> over that module.\<close>

definition dev :: "nat \<Rightarrow> string \<Rightarrow> device" where
  "dev n r = projr (init pauli_ops n 1000 r ''auto'')"

definition one_entry_per_wire :: "device \<Rightarrow> bool" where
  "one_entry_per_wire d =
     (length (free_wire_edges d) = num_wires d
      \<and> distinct (free_wire_edges d)
      \<and> list_all (dangling (connections d)) (free_wire_edges d))"

definition numbered :: "device \<Rightarrow> bool" where
  "numbered d =
     (list_all (\<lambda>e. edge_node e < next_id d) (free_wire_edges d)
      \<and> list_all (\<lambda>c. edge_node (fst c) < next_id d \<and> edge_node (snd c) < next_id d)
                  (connections d))"

definition connections_numbered :: "device \<Rightarrow> bool" where
  "connections_numbered d =
     list_all (\<lambda>c. edge_node (fst c) < next_id d \<and> edge_node (snd c) < next_id d)
              (connections d)"

definition chain_nodes_ok :: "nat \<Rightarrow> nat \<Rightarrow> node list \<Rightarrow> bool" where
  "chain_nodes_ok lo hi ns =
     (distinct (map node_id ns)
      \<and> list_all (\<lambda>n. lo \<le> node_id n \<and> node_id n < hi \<and> 2 \<le> ndim (node_tensor n)) ns)"

definition gate_loop_inv :: "nat \<Rightarrow> nat \<Rightarrow> nat \<Rightarrow> device \<Rightarrow> bool" where
  "gate_loop_inv k num i d =
     (distinct (free_wire_edges d)
      \<and> list_all (\<lambda>e. dangling (connections d) e
                       \<and> (edge_node e < k \<or> (edge_node e = k \<and> edge_axis e < i)))
                  (free_wire_edges d)
      \<and> list_all (\<lambda>c. list_all (\<lambda>e. edge_node e < k
                                      \<or> (edge_node e = k
                                          \<and> (edge_axis e < i
                                              \<or> (num \<le> edge_axis e \<and> edge_axis e < num + i))))
                                 [fst c, snd c])
                  (connections d))"

text \<open>What no gate touches, whatever the outcome.\<close>

definition same_configuration :: "device \<Rightarrow> device \<Rightarrow> bool" where
  "same_configuration d d' =
     (num_wires d' = num_wires d \<and> shots d' = shots d \<and> rep d' = rep d
      \<and> contraction_method d' = contraction_method d
      \<and> operation_and_observable_map d' = operation_and_observable_map d
      \<and> contracted_state_node d' = contracted_state_node d)"

text \<open>The tensor a chain contracts to (the loop of \<open>contract_chain\<close> without the nodes).\<close>

fun chain_tensor :: "tensor \<Rightarrow> tensor list \<Rightarrow> error + tensor" where
  "chain_tensor prev [] = Inr prev"
| "chain_tensor prev (t # rest) =
     (if ndim prev = 0 \<or> ndim t = 0 then Inl IndexError
      else chain_tensor (Lib (butlast (shape prev) @ tl (shape t))
                             (ContractBetween [(ndim prev - 1, 0)]) [prev, t]) rest)"

text \<open>
  The tensor of the contracted state: the one in the cache, or else the one that
  \<^verbatim>\<open>_contract_premeasurement_network\<close> would put there (or the exception it would raise).
\<close>

definition ket_tensor :: "device \<Rightarrow> error + tensor" where
  "ket_tensor d =
     (case contracted_state_node d of
        Some ket \<Rightarrow> Inr (node_tensor ket)
      | None \<Rightarrow>
          if rep d = ''exact'' then
            (if contraction_method d \<notin> set contract_fns then Inl KeyError
             else case nodes d ''state'' of
                    None \<Rightarrow> Inl KeyError
                  | Some ns \<Rightarrow>
                      (case those (map (edge_dim ns) (free_wire_edges d)) of
                         None \<Rightarrow> Inl TNError
                       | Some dims \<Rightarrow>
                           Inr (Lib dims (Contract (contraction_method d) (map node_id ns)
                                            (connections d) (free_wire_edges d))
                                    (map node_tensor ns))))
          else if rep d = ''mps'' then
            (case mps d of
               None \<Rightarrow> Inl AttributeError
             | Some [] \<Rightarrow> Inl UnboundLocalError
             | Some (n # rest) \<Rightarrow>
                 (case chain_tensor (node_tensor n) (map node_tensor rest) of
                    Inl e \<Rightarrow> Inl e
                  | Inr t \<Rightarrow> Inr (np_squeeze t)))
          else Inl UnboundLocalError)"

text \<open>The settings of a device: what the constructor is given and no operation changes.\<close>

definition same_settings :: "device \<Rightarrow> device \<Rightarrow> bool" where
  "same_settings d e =
     (num_wires e = num_wires d \<and> shots e = shots d \<and> rep e = rep d
      \<and> contraction_method e = contraction_method d
      \<and> operation_and_observable_map e = operation_and_observable_map d)"

text \<open>
  The node that \<^verbatim>\<open>_add_node\<close> makes for a component of a preparation, numbered \<open>i\<close>, and
  the node of a single-wire component in chain form.
\<close>

definition component_node :: "nat \<times> tensor \<times> int list \<times> string \<Rightarrow> node" where
  "component_node c = (case c of (i, t, ws, name) \<Rightarrow> Node i (name @ tuple_repr ws) t)"

definition chain_node :: "nat \<times> tensor \<times> int list \<times> string \<Rightarrow> node" where
  "chain_node c =
     (case c of (i, t, ws, name) \<Rightarrow>
        Node i (name @ tuple_repr ws) (expand_dims_last (expand_dims_first t)))"

text \<open>
  The line of a wire through the network of the exact representation.  A gate joins its
  input edge \<open>num + idx\<close> to the edge where the wire ended and the wire goes on at the
  output edge \<open>idx\<close> of the gate, \<open>num\<close> being half the rank of the gate's node.
  \<open>next_edge\<close> is that step, \<open>wire_end\<close> follows a line for at most \<open>k\<close> steps.
\<close>

definition state_nodes :: "device \<Rightarrow> node list" where
  "state_nodes d = (case nodes d ''state'' of None \<Rightarrow> [] | Some ns \<Rightarrow> ns)"

definition node_rank :: "node list \<Rightarrow> nat \<Rightarrow> nat" where
  "node_rank ns g =
     (case find (\<lambda>n. node_id n = g) (rev ns) of
        None \<Rightarrow> 0
      | Some n \<Rightarrow> ndim (node_tensor n))"

definition next_edge :: "node list \<Rightarrow> (edge \<times> edge) list \<Rightarrow> edge \<Rightarrow> edge option" where
  "next_edge ns cs e =
     (case find (\<lambda>c. snd c = e) cs of
        None \<Rightarrow> None
      | Some c \<Rightarrow>
          Some (Edge (edge_node (fst c))
                     (edge_axis (fst c) - node_rank ns (edge_node (fst c)) div 2)))"

fun wire_end :: "nat \<Rightarrow> node list \<Rightarrow> (edge \<times> edge) list \<Rightarrow> edge \<Rightarrow> edge" where
  "wire_end 0 ns cs e = e"
| "wire_end (Suc k) ns cs e =
     (case next_edge ns cs e of None \<Rightarrow> e | Some e' \<Rightarrow> wire_end k ns cs e')"

text \<open>
  Where the wires end: wire \<open>i\<close> starts at the \<open>i\<close>-th edge of the state nodes (the nodes
  of the prepared state come first in the registry) and runs through the gates.
\<close>

definition wire_ends :: "device \<Rightarrow> edge list" where
  "wire_ends d =
     map (wire_end (length (connections d)) (state_nodes d) (connections d))
         (take (num_wires d) (concat (map edges (state_nodes d))))"

text \<open>The physical edges of the sites of the chain, \<^verbatim>\<open>[node[1] for node in self.mps.nodes]\<close>.\<close>

definition physical_edges :: "device \<Rightarrow> edge list option" where
  "physical_edges d =
     (case mps d of None \<Rightarrow> None | Some ms \<Rightarrow> those (map (\<lambda>n. node_edge n 1) ms))"

text \<open>
  The wire-edge table is as it should be: it has one entry per wire, the entries are
  pairwise different dangling edges, and entry \<open>i\<close> is the edge of wire \<open>i\<close>: the end of
  the line of wire \<open>i\<close> in the exact representation, the physical edge of site \<open>i\<close> of the
  chain for a matrix-product state.
\<close>

definition wire_edge_table_ok :: "device \<Rightarrow> bool" where
  "wire_edge_table_ok d =
     (one_entry_per_wire d
      \<and> (if rep d = ''mps'' then physical_edges d = Some (free_wire_edges d)
          else wire_ends d = free_wire_edges d))"

section \<open>Properties\<close>

subsection \<open>Python lists\<close>

lemma py_pos_nat [simp]: "k < n \<Longrightarrow> py_pos n (int k) = Some k"
  by (simp add: py_pos_def)

lemma py_pos_ge [simp]: "n \<le> k \<Longrightarrow> py_pos n (int k) = None"
  by (simp add: py_pos_def)

lemma py_pos_less: "py_pos n i = Some k \<Longrightarrow> k < n"
  by (auto simp: py_pos_def split: if_splits)

lemma py_get_nat [simp]: "k < length xs \<Longrightarrow> py_get xs (int k) = Some (xs ! k)"
  by (simp add: py_get_def)

lemma py_get_ge [simp]: "length xs \<le> k \<Longrightarrow> py_get xs (int k) = None"
  by (simp add: py_get_def)

lemma those_eq_Some: "(those xs = Some ys) = (xs = map Some ys)"
  by (induction xs arbitrary: ys) (auto split: option.splits)

lemma those_eq_None: "(those xs = None) = (None \<in> set xs)"
  by (induction xs) (auto split: option.splits)

lemma those_map_Some [simp]: "those (map Some ys) = Some ys"
  by (simp add: those_eq_Some)

text \<open>Reading a list at every index of \<^verbatim>\<open>range(n)\<close> works iff the list is long enough.\<close>

lemma read_all_wires:
  "those (map (py_get xs) (py_range n)) = (if n \<le> length xs then Some (take n xs) else None)"
proof (cases "n \<le> length xs")
  case True
  have "map (py_get xs) (py_range n) = map Some (take n xs)"
    using True by (auto simp: py_range_def list_eq_iff_nth_eq)
  then show ?thesis using True by simp
next
  case False
  then have "py_get xs (int (length xs)) = None" "length xs < n" by auto
  then have "None \<in> set (map (py_get xs) (py_range n))"
    by (force simp: py_range_def image_iff)
  then show ?thesis using False by (simp add: those_eq_None)
qed

subsection \<open>The parameter of BasisState\<close>

lemma basis_state_cases:
  "add_state_prep_nodes ''BasisState'' (Ints xs # ps) d =
     (if length xs = 0 \<or> num_wires d < length xs \<or> \<not> set xs \<subseteq> {0, 1}
        then (Inl InvalidWires, d)
      else if length xs < num_wires d then (Inl IndexError, d)
      else add_initial_state_nodes
             (map (\<lambda>v. if v = 0 then zero_state else Arr [2] [0, 1]) xs)
             (map (\<lambda>w. [w]) (py_range (num_wires d)))
             (replicate (num_wires d) ''BasisState'') d)"
  by (auto simp: add_state_prep_nodes_def read_all_wires Let_def)

lemma dev_2_exact_wires: "num_wires (dev 2 ''exact'') = 2"
  by code_simp

lemma basis_state_full_length:
  "fst (add_state_prep_nodes ''BasisState'' [Ints [1, 0]] (dev 2 ''exact'')) = Inr ()"
  by code_simp

text \<open>
  C10.  A \<^verbatim>\<open>BasisState\<close> parameter is rejected by the validation (\<open>InvalidWires\<close>) when it
  is empty, longer than the number of wires, or has an entry other than 0 and 1.  A
  parameter of 0/1 entries that is shorter than the number of wires passes the
  validation, and the construction of the per-wire tensors then fails with Python's
  \<open>IndexError\<close>, which is not an error of the taxonomy; the device is as it was handed
  to \<^verbatim>\<open>_add_state_prep_nodes\<close>.  Whenever the preparation succeeds, the parameter has
  exactly as many entries as there are wires.
\<close>

theorem basis_state_shorter_than_wires:
  "(length xs = 0 \<or> num_wires d < length xs \<or> \<not> set xs \<subseteq> {0, 1} \<longrightarrow>
      add_state_prep_nodes ''BasisState'' (Ints xs # ps) d = (Inl InvalidWires, d))
   \<and> (0 < length xs \<and> length xs < num_wires d \<and> set xs \<subseteq> {0, 1} \<longrightarrow>
      add_state_prep_nodes ''BasisState'' (Ints xs # ps) d = (Inl IndexError, d))
   \<and> (fst (add_state_prep_nodes ''BasisState'' (Ints xs # ps) d) = Inr () \<longrightarrow>
      length xs = num_wires d)"
  by (auto simp: basis_state_cases)

theorem basis_state_shorter_than_wires_witness:
  "add_state_prep_nodes ''BasisState'' [Ints [1]] (dev 2 ''exact'')
     = (Inl IndexError, dev 2 ''exact'')
   \<and> fst (add_state_prep_nodes ''BasisState'' [Ints [1, 0]] (dev 2 ''exact'')) = Inr ()
   \<and> length [1 :: int, 0] = num_wires (dev 2 ''exact'')"
  using basis_state_shorter_than_wires [of "[1]" "dev 2 ''exact''" "[]"]
        basis_state_shorter_than_wires [of "[1, 0]" "dev 2 ''exact''" "[]"]
        basis_state_full_length
  by (simp add: dev_2_exact_wires)

subsection \<open>add_node\<close>

lemma add_node_Inl:
  "add_node (Inl t) ws name key d =
     (Node (next_id d) (name @ tuple_repr ws) t,
      d\<lparr>next_id := next_id d + 1,
        nodes := (nodes d)(key \<mapsto> (case nodes d key of None \<Rightarrow> [] | Some ns \<Rightarrow> ns)
                                @ [Node (next_id d) (name @ tuple_repr ws) t])\<rparr>)"
  by (simp add: add_node_def tn_Node_def Let_def)

lemma add_node_Inr:
  "add_node (Inr n) ws name key d =
     (Node (node_id n) (name @ tuple_repr ws) (node_tensor n),
      d\<lparr>nodes := (nodes d)(key \<mapsto> (case nodes d key of None \<Rightarrow> [] | Some ns \<Rightarrow> ns)
                                @ [Node (node_id n) (name @ tuple_repr ws) (node_tensor n)])\<rparr>)"
  by (simp add: add_node_def Let_def)

subsection \<open>exact components\<close>

lemma add_exact_components_ok:
  assumes "add_exact_components comps d = (Inr u, d')"
  shows "length (free_wire_edges d') =
           length (free_wire_edges d) + sum_list (map (\<lambda>c. length (fst (snd c))) comps)
         \<and> connections d' = connections d
         \<and> num_wires d' = num_wires d \<and> rep d' = rep d
         \<and> next_id d \<le> next_id d'
         \<and> (\<forall>e \<in> set (free_wire_edges d').
               e \<in> set (free_wire_edges d) \<or> (next_id d \<le> edge_node e \<and> edge_node e < next_id d'))
         \<and> (list_all (\<lambda>e. edge_node e < next_id d) (free_wire_edges d) \<longrightarrow>
              distinct (free_wire_edges d) \<longrightarrow> distinct (free_wire_edges d'))"
  using assms
proof (induction comps arbitrary: d)
  case Nil
  then show ?case by simp
next
  case (Cons c comps)
  obtain t ws name where c: "c = (t, ws, name)" by (cases c) auto
  from Cons.prems c have rk: "ndim t = length ws"
    by (auto split: if_splits)
  define d1 where "d1 = (snd (add_node (Inl t) ws name ''state'' d))
                          \<lparr>free_wire_edges := free_wire_edges d @ edges (Node (next_id d) (name @ tuple_repr ws) t)\<rparr>"
  from Cons.prems c rk have run: "add_exact_components comps d1 = (Inr u, d')"
    by (simp add: d1_def add_node_Inl)
  note IH = Cons.IH [OF run]
  have f1: "free_wire_edges d1 = free_wire_edges d @ map (Edge (next_id d)) [0..<length ws]"
    by (simp add: d1_def edges_def rk)
  have n1: "next_id d1 = next_id d + 1" by (simp add: d1_def add_node_Inl)
  have c1: "connections d1 = connections d" "num_wires d1 = num_wires d" "rep d1 = rep d"
    by (simp_all add: d1_def add_node_Inl)
  have b1: "list_all (\<lambda>e. edge_node e < next_id d) (free_wire_edges d) \<Longrightarrow>
            list_all (\<lambda>e. edge_node e < next_id d1) (free_wire_edges d1)"
    by (auto simp: f1 n1 list_all_iff)
  have dist1: "list_all (\<lambda>e. edge_node e < next_id d) (free_wire_edges d) \<Longrightarrow>
            distinct (free_wire_edges d) \<Longrightarrow> distinct (free_wire_edges d1)"
    by (auto simp: f1 list_all_iff distinct_map inj_on_def)
  have mem: "\<forall>e \<in> set (free_wire_edges d').
               e \<in> set (free_wire_edges d) \<or> (next_id d \<le> edge_node e \<and> edge_node e < next_id d')"
  proof
    fix e assume "e \<in> set (free_wire_edges d')"
    with IH have "e \<in> set (free_wire_edges d1) \<or> (next_id d1 \<le> edge_node e \<and> edge_node e < next_id d')"
      by blast
    moreover have "next_id d1 \<le> next_id d'" using IH by simp
    ultimately show "e \<in> set (free_wire_edges d) \<or> (next_id d \<le> edge_node e \<and> edge_node e < next_id d')"
      by (auto simp: f1 n1)
  qed
  show ?case
    using IH b1 dist1 mem by (auto simp: f1 n1 c1 c)
qed

text \<open>In the exact representation every component whose rank fits is accepted.\<close>

lemma add_exact_components_succeeds:
  "list_all (\<lambda>c. ndim (fst c) = length (fst (snd c))) comps \<Longrightarrow>
   fst (add_exact_components comps d) = Inr ()"
proof (induction comps arbitrary: d)
  case Nil
  then show ?case by simp
next
  case (Cons c comps)
  then show ?case by (cases c) (simp add: add_node_Inl)
qed

subsection \<open>chain components\<close>

lemma split_wires_ok:
  assumes "split_wires name len DV (enumerate i rest) acc d = (ns, d')"
    and "i + length rest = len"
    and "rest \<noteq> [] \<longrightarrow> ndim (tensor_of DV) = length rest + 2"
    and "case DV of Inl t \<Rightarrow> True
         | Inr n \<Rightarrow> lo \<le> node_id n \<and> node_id n < next_id d \<and> node_id n \<notin> set (map node_id acc)"
    and "chain_nodes_ok lo (next_id d) acc"
    and "lo \<le> next_id d"
  shows "chain_nodes_ok lo (next_id d') ns \<and> length ns = length acc + length rest
         \<and> next_id d \<le> next_id d'
         \<and> connections d' = connections d \<and> free_wire_edges d' = free_wire_edges d
         \<and> num_wires d' = num_wires d \<and> rep d' = rep d \<and> mps d' = mps d
         \<and> contracted_state_node d' = contracted_state_node d"
  using assms
proof (induction rest arbitrary: i DV acc d)
  case Nil
  then show ?case by simp
next
  case (Cons w rest)
  show ?case
  proof (cases "rest = []")
    case True
    have nd: "ndim (tensor_of DV) = 3" using Cons.prems(3) True by simp
    have last: "\<not> int i < int len - 1" using Cons.prems(2) True by simp
    show ?thesis
    proof (cases DV)
      case (Inl t)
      with Cons.prems(1) True last
      have "ns = acc @ [Node (next_id d) (name @ tuple_repr [w]) t]"
           "next_id d' = next_id d + 1" "connections d' = connections d"
           "free_wire_edges d' = free_wire_edges d" "num_wires d' = num_wires d" "rep d' = rep d"
           "mps d' = mps d" "contracted_state_node d' = contracted_state_node d"
        by (auto simp: add_node_Inl)
      moreover have "ndim t = 3" using nd Inl by simp
      ultimately show ?thesis
        using Cons.prems(5,6) True
        by (auto simp: chain_nodes_ok_def list_all_iff)
    next
      case (Inr n)
      with Cons.prems(1) True last
      have "ns = acc @ [Node (node_id n) (name @ tuple_repr [w]) (node_tensor n)]"
           "next_id d' = next_id d" "connections d' = connections d"
           "free_wire_edges d' = free_wire_edges d" "num_wires d' = num_wires d" "rep d' = rep d"
           "mps d' = mps d" "contracted_state_node d' = contracted_state_node d"
        by (auto simp: add_node_Inr)
      moreover have "ndim (node_tensor n) = 3" using nd Inr by simp
      ultimately show ?thesis
        using Cons.prems(4,5) True Inr
        by (auto simp: chain_nodes_ok_def list_all_iff)
    qed
  next
    case False
    then have more: "int i < int len - 1" using Cons.prems(2) by (cases rest) auto
    define t where "t = tensor_of DV"
    have nd: "ndim t = length rest + 3" using Cons.prems(3) by (simp add: t_def)
    define k where "k = min (prod_list (take 2 (shape t))) (prod_list (drop 2 (shape t)))"
    define U where "U = Node (Suc (next_id d)) (name @ tuple_repr [w]) (Lib (take 2 (shape t) @ [k]) SplitLeft [t])"
    define DV' where "DV' = Node (Suc (Suc (next_id d))) [] (Lib (k # drop 2 (shape t)) SplitRight [t])"
    define d3 where "d3 = snd (add_node (Inr (Node (Suc (next_id d)) [] (Lib (take 2 (shape t) @ [k]) SplitLeft [t])))
                                 [w] name ''state''
                                 (d\<lparr>next_id := Suc (Suc (Suc (next_id d)))\<rparr>))"
    have run: "split_wires name len (Inr DV') (enumerate (Suc i) rest) (acc @ [U]) d3 = (ns, d')"
      using Cons.prems(1) more
      by (simp add: tn_Node_def tn_split_node_def Let_def add_node_Inr t_def [symmetric]
                    k_def [symmetric] U_def DV'_def d3_def)
    have d3: "next_id d3 = Suc (Suc (Suc (next_id d)))" "connections d3 = connections d"
             "free_wire_edges d3 = free_wire_edges d" "num_wires d3 = num_wires d" "rep d3 = rep d"
             "mps d3 = mps d" "contracted_state_node d3 = contracted_state_node d"
      by (simp_all add: d3_def add_node_Inr)
    have p2: "Suc i + length rest = len" using Cons.prems(2) by simp
    have p3: "rest \<noteq> [] \<longrightarrow> ndim (tensor_of (Inr DV')) = length rest + 2"
      using nd by (simp add: DV'_def ndim_def)
    have accb: "\<forall>n \<in> set acc. node_id n < next_id d"
      using Cons.prems(5) by (auto simp: chain_nodes_ok_def list_all_iff)
    have p4: "case (Inr DV' :: tensor + node) of Inl t \<Rightarrow> True
              | Inr n \<Rightarrow> lo \<le> node_id n \<and> node_id n < next_id d3
                         \<and> node_id n \<notin> set (map node_id (acc @ [U]))"
      using accb Cons.prems(6) by (auto simp: DV'_def U_def d3)
    have p5: "chain_nodes_ok lo (next_id d3) (acc @ [U])"
      using Cons.prems(5,6) accb nd
      by (auto simp: chain_nodes_ok_def list_all_iff U_def d3 ndim_def)
    have p6: "lo \<le> next_id d3" using Cons.prems(6) by (simp add: d3)
    from Cons.IH [OF run p2 p3 p4 p5 p6] show ?thesis
      by (simp add: d3)
  qed
qed

lemma range_contiguous:
  "0 < n \<Longrightarrow> Max (set (py_range n)) - Min (set (py_range n)) = int n - 1"
proof -
  assume n: "0 < n"
  have s: "set (py_range n) = int ` {0..<n}" by (auto simp: py_range_def)
  have "Max (int ` {0..<n}) = int (Max {0..<n})"
    using n by (intro mono_Max_commute [symmetric]) (auto simp: mono_def)
  moreover have "Min (int ` {0..<n}) = int (Min {0..<n})"
    using n by (intro mono_Min_commute [symmetric]) (auto simp: mono_def)
  moreover have "Max {0..<n} = n - 1" using n by (intro Max_eqI) auto
  moreover have "Min {0..<n} = 0" using n by (intro Min_eqI) auto
  ultimately show ?thesis using n by (simp add: s)
qed

lemma add_mps_components_ok:
  assumes "add_mps_components comps acc d = (Inr ns, d')"
    and "chain_nodes_ok lo (next_id d) acc"
    and "lo \<le> next_id d"
  shows "chain_nodes_ok lo (next_id d') ns
         \<and> length ns = length acc + sum_list (map (\<lambda>c. length (fst (snd c))) comps)
         \<and> next_id d \<le> next_id d'
         \<and> connections d' = connections d \<and> free_wire_edges d' = free_wire_edges d
         \<and> num_wires d' = num_wires d \<and> rep d' = rep d \<and> mps d' = mps d
         \<and> contracted_state_node d' = contracted_state_node d"
  using assms
proof (induction comps arbitrary: acc d)
  case Nil
  then show ?case by simp
next
  case (Cons c comps)
  obtain t ws name where c: "c = (t, ws, name)" by (cases c) auto
  from Cons.prems(1) c have rk: "ndim t = length ws"
    by (auto split: if_splits)
  define t' where "t' = expand_dims_last (expand_dims_first t)"
  have nd': "ndim t' = length ws + 2"
    using rk by (cases t) (auto simp: t'_def expand_dims_last_def expand_dims_first_def ndim_def)
  show ?case
  proof (cases "shape t' = [1, 2, 1]")
    case True
    then have one: "length ws = 1" using nd' by (simp add: ndim_def)
    define n where "n = Node (next_id d) (name @ tuple_repr ws) t'"
    define d1 where "d1 = snd (add_node (Inl t') ws name ''state'' d)"
    have run: "add_mps_components comps (acc @ [n]) d1 = (Inr ns, d')"
      using Cons.prems(1) c rk True
      by (simp add: t'_def [symmetric] add_node_Inl n_def d1_def Let_def)
    have d1: "next_id d1 = Suc (next_id d)" "connections d1 = connections d"
      "free_wire_edges d1 = free_wire_edges d" "num_wires d1 = num_wires d" "rep d1 = rep d"
      "mps d1 = mps d" "contracted_state_node d1 = contracted_state_node d"
      by (simp_all add: d1_def add_node_Inl)
    have ok: "chain_nodes_ok lo (next_id d1) (acc @ [n])"
      using Cons.prems(2,3) nd'
      by (auto simp: chain_nodes_ok_def list_all_iff n_def d1)
    from Cons.IH [OF run ok] Cons.prems(3) show ?thesis
      by (simp add: d1 c one)
  next
    case False
    from Cons.prems(1) c rk False have ne: "ws \<noteq> []"
      by (auto simp: t'_def [symmetric] Let_def split: if_splits)
    obtain ns1 d1 where sw: "split_wires name (length ws) (Inl t') (enumerate 0 ws) acc d = (ns1, d1)"
      by (cases "split_wires name (length ws) (Inl t') (enumerate 0 ws) acc d") auto
    have run: "add_mps_components comps ns1 d1 = (Inr ns, d')"
      using Cons.prems(1) c rk False ne sw
      by (auto simp: t'_def [symmetric] Let_def split: if_splits)
    have p: "0 + length ws = length ws" "ws \<noteq> [] \<longrightarrow> ndim (tensor_of (Inl t' :: tensor + node)) = length ws + 2"
      "case (Inl t' :: tensor + node) of Inl t \<Rightarrow> True
         | Inr n \<Rightarrow> lo \<le> node_id n \<and> node_id n < next_id d \<and> node_id n \<notin> set (map node_id acc)"
      using nd' by simp_all
    note S = split_wires_ok [OF sw p Cons.prems(2,3)]
    from S have ok: "chain_nodes_ok lo (next_id d1) ns1" and lo: "lo \<le> next_id d1"
      using Cons.prems(3) by auto
    from Cons.IH [OF run ok lo] S show ?thesis
      by (simp add: c)
  qed
qed

lemma chain_edges:
  "chain_nodes_ok lo hi ns \<Longrightarrow>
   those (map (\<lambda>n. node_edge n 1) ns) = Some (map (\<lambda>n. Edge (node_id n) 1) ns)"
proof -
  assume ok: "chain_nodes_ok lo hi ns"
  have "map (\<lambda>n. node_edge n 1) ns = map Some (map (\<lambda>n. Edge (node_id n) 1) ns)"
    using ok by (auto simp: chain_nodes_ok_def list_all_iff node_edge_def py_pos_def)
  then show ?thesis by (simp only: those_map_Some)
qed

text \<open>
  A successful preparation leaves one entry per wire of the wire groups, all of them
  dangling edges of nodes made by the call.
\<close>

lemma add_initial_state_nodes_table:
  assumes run: "add_initial_state_nodes tensors wires names d = (Inr u, d')"
    and rp: "rep d = ''exact'' \<or> rep d = ''mps''"
    and cn: "connections_numbered d"
  shows "length (free_wire_edges d') = sum_list (map length wires)
         \<and> distinct (free_wire_edges d')
         \<and> list_all (dangling (connections d')) (free_wire_edges d')
         \<and> numbered d' \<and> num_wires d' = num_wires d \<and> rep d' = rep d"
proof -
  from run have len: "length tensors = length wires" "length wires = length names"
    by (auto simp: add_initial_state_nodes_def split: if_splits)
  define comps where "comps = zip tensors (zip wires names)"
  have sum: "sum_list (map (\<lambda>c. length (fst (snd c))) comps) = sum_list (map length wires)"
  proof -
    have "map (\<lambda>c. length (fst (snd c))) comps = map length wires"
      using len by (auto simp: comps_def list_eq_iff_nth_eq)
    then show ?thesis by simp
  qed
  have fresh: "\<And>e. next_id d \<le> edge_node e \<Longrightarrow> dangling (connections d) e"
    using cn by (fastforce simp: connections_numbered_def dangling_def list_all_iff)
  show ?thesis
  proof (cases "rep d = ''exact''")
    case True
    define d0 where "d0 = d\<lparr>free_wire_edges := []\<rparr>"
    from run True len have r: "add_exact_components comps d0 = (Inr u, d')"
      by (simp add: add_initial_state_nodes_def comps_def d0_def)
    note E = add_exact_components_ok [OF r]
    have "list_all (dangling (connections d')) (free_wire_edges d')"
      using E fresh by (auto simp: list_all_iff d0_def)
    moreover have "numbered d'"
      using E cn by (auto simp: numbered_def connections_numbered_def list_all_iff d0_def)
    ultimately show ?thesis using E sum by (simp add: d0_def)
  next
    case False
    with rp have m: "rep d = ''mps''" by simp
    from run m False len obtain ns d1 where
      r: "add_mps_components comps [] d = (Inr ns, d1)"
      by (auto simp: add_initial_state_nodes_def comps_def split: prod.splits sum.splits)
    have ok0: "chain_nodes_ok (next_id d) (next_id d) []" by (simp add: chain_nodes_ok_def)
    note M = add_mps_components_ok [OF r ok0 order_refl]
    then have "chain_nodes_ok (next_id d) (next_id d1) ns" by simp
    note ce = chain_edges [OF this]
    from run m False len r ce
    have d': "d' = d1\<lparr>mps := Some ns, free_wire_edges := map (\<lambda>n. Edge (node_id n) 1) ns\<rparr>"
      by (simp add: add_initial_state_nodes_def comps_def)
    have ids: "\<forall>n \<in> set ns. next_id d \<le> node_id n \<and> node_id n < next_id d1"
      and dist: "distinct (map node_id ns)"
      using M by (auto simp: chain_nodes_ok_def list_all_iff)
    have "distinct (free_wire_edges d')"
      using dist by (simp add: d' distinct_map inj_on_def)
    moreover have "list_all (dangling (connections d')) (free_wire_edges d')"
      using ids fresh M by (auto simp: d' list_all_iff)
    moreover have "numbered d'"
      using ids M cn by (auto simp: d' numbered_def connections_numbered_def list_all_iff)
    ultimately show ?thesis using M sum by (simp add: d')
  qed
qed

lemma clear_network_data_simps [simp]:
  "num_wires (clear_network_data d) = num_wires d"
  "shots (clear_network_data d) = shots d"
  "rep (clear_network_data d) = rep d"
  "contraction_method (clear_network_data d) = contraction_method d"
  "operation_and_observable_map (clear_network_data d) = operation_and_observable_map d"
  "nodes (clear_network_data d) = Map.empty"
  "free_wire_edges (clear_network_data d) = []"
  "mps (clear_network_data d) = None"
  "contracted_state_node (clear_network_data d) = None"
  "connections (clear_network_data d) = []"
  "next_id (clear_network_data d) = 0"
  by (simp_all add: clear_network_data_def)

lemma connections_numbered_clear [simp]: "connections_numbered (clear_network_data d)"
  by (simp add: connections_numbered_def)

lemma sum_length_singletons [simp]:
  "sum_list (map (length \<circ> (\<lambda>w. [w])) xs) = length xs"
  by (induction xs) auto

lemma length_py_range [simp]: "length (py_range n) = n"
  by (simp add: py_range_def)

text \<open>Single-wire components in chain form are accepted one by one.\<close>

lemma add_mps_components_single:
  "list_all (\<lambda>c. shape (fst c) = [2] \<and> length (fst (snd c)) = 1) comps \<Longrightarrow>
   \<exists>ns d'. add_mps_components comps acc d = (Inr ns, d')"
proof (induction comps arbitrary: acc d)
  case Nil
  then show ?case by simp
next
  case (Cons c comps)
  obtain t ws name where c: "c = (t, ws, name)" by (cases c) auto
  from Cons.prems c have t: "shape t = [2]" "length ws = 1" by auto
  then have "shape (expand_dims_last (expand_dims_first t)) = [1, 2, 1]"
    by (cases t) (auto simp: expand_dims_last_def expand_dims_first_def)
  with Cons c t show ?case
    by (simp add: ndim_def Let_def add_node_Inl)
qed

lemma shape_zero_state [simp]: "shape zero_state = [2]" "ndim zero_state = 1"
  by (simp_all add: zero_state_def ndim_def)

text \<open>Preparing one single-qubit vector per wire always works.\<close>

lemma prepare_product_state:
  assumes rp: "rep d = ''exact'' \<or> rep d = ''mps''"
    and ts: "list_all (\<lambda>t. shape t = [2]) ts" and len: "length ts = n"
  shows "\<exists>d'. add_initial_state_nodes ts (map (\<lambda>w. [w]) (py_range n)) (replicate n name) d
                = (Inr (), d')"
proof -
  define comps where "comps = zip ts (zip (map (\<lambda>w. [w]) (py_range n)) (replicate n name))"
  have all: "list_all (\<lambda>c. shape (fst c) = [2] \<and> length (fst (snd c)) = 1) comps"
    using ts len by (auto simp: comps_def list_all_iff in_set_zip py_range_def)
  show ?thesis
  proof (cases "rep d = ''exact''")
    case True
    have "list_all (\<lambda>c. ndim (fst c) = length (fst (snd c))) comps"
      using all by (auto simp: list_all_iff ndim_def)
    from add_exact_components_succeeds [OF this, of "d\<lparr>free_wire_edges := []\<rparr>"]
    show ?thesis using True len
      by (cases "add_exact_components comps (d\<lparr>free_wire_edges := []\<rparr>)")
         (simp add: add_initial_state_nodes_def comps_def)
  next
    case False
    with rp have m: "rep d = ''mps''" by simp
    from add_mps_components_single [OF all, of "[]" d] obtain ns d1 where
      r: "add_mps_components comps [] d = (Inr ns, d1)" by blast
    have ok0: "chain_nodes_ok (next_id d) (next_id d) []" by (simp add: chain_nodes_ok_def)
    from add_mps_components_ok [OF r ok0 order_refl]
    have "chain_nodes_ok (next_id d) (next_id d1) ns" by simp
    note ce = chain_edges [OF this]
    show ?thesis using m False len r ce
      by (simp add: add_initial_state_nodes_def comps_def)
  qed
qed

lemma reset_succeeds:
  "rep d = ''exact'' \<or> rep d = ''mps'' \<Longrightarrow> \<exists>d'. reset d = (Inr (), d')"
  unfolding reset_def
  by (rule prepare_product_state) (simp_all add: list_all_iff)

lemma reset_table:
  assumes "reset d = (Inr u, d')" and "rep d = ''exact'' \<or> rep d = ''mps''"
  shows "one_entry_per_wire d' \<and> numbered d' \<and> num_wires d' = num_wires d \<and> rep d' = rep d"
  using add_initial_state_nodes_table [OF assms(1) [unfolded reset_def]] assms(2)
  by (simp add: one_entry_per_wire_def)

text \<open>A state preparation that succeeds leaves a table with one dangling edge per wire.\<close>

lemma add_state_prep_nodes_table:
  assumes run: "add_state_prep_nodes operation par d = (Inr u, d')"
    and rp: "rep d = ''exact'' \<or> rep d = ''mps''"
    and cn: "connections_numbered d"
  shows "one_entry_per_wire d' \<and> numbered d' \<and> num_wires d' = num_wires d \<and> rep d' = rep d"
proof -
  from run obtain ts ws ns where
    r: "add_initial_state_nodes ts ws ns d = (Inr u, d')" and s: "sum_list (map length ws) = num_wires d"
    by (auto simp: add_state_prep_nodes_def Let_def
             split: if_splits list.splits sum.splits option.splits param.splits)
  from add_initial_state_nodes_table [OF r rp cn] s show ?thesis
    by (simp add: one_entry_per_wire_def)
qed

lemma py_get_Some: "py_get xs i = Some x \<Longrightarrow> \<exists>j. py_pos (length xs) i = Some j \<and> x = xs ! j"
  by (auto simp: py_get_def)

lemma py_set_Some: "py_set xs i v = Some ys \<Longrightarrow> \<exists>j. py_pos (length xs) i = Some j \<and> ys = xs[j := v]"
  by (auto simp: py_set_def)

lemma connect_gate_step:
  assumes run: "connect_gate op_node num ((idx, w) # rest) d = (Inr u, d')"
    and nd: "ndim (node_tensor op_node) = 2 * num" and idx: "idx < num"
  shows "\<exists>j. py_pos (length (free_wire_edges d)) w = Some j
           \<and> Edge (node_id op_node) (num + idx) \<noteq> free_wire_edges d ! j
           \<and> dangling (connections d) (Edge (node_id op_node) (num + idx))
           \<and> dangling (connections d) (free_wire_edges d ! j)
           \<and> connect_gate op_node num rest
                (d\<lparr>connections := connections d
                                    @ [(Edge (node_id op_node) (num + idx), free_wire_edges d ! j)],
                   free_wire_edges := (free_wire_edges d)[j := Edge (node_id op_node) idx]\<rparr>)
               = (Inr u, d')"
proof -
  have e_in: "node_edge op_node (int (num + idx)) = Some (Edge (node_id op_node) (num + idx))"
    using nd idx by (simp add: node_edge_def py_pos_def)
  have e_out: "node_edge op_node (int idx) = Some (Edge (node_id op_node) idx)"
    using nd idx by (simp add: node_edge_def)
  from run e_in obtain e_free where g: "py_get (free_wire_edges d) w = Some e_free"
    by (auto split: option.splits)
  then obtain j where j: "py_pos (length (free_wire_edges d)) w = Some j"
    "e_free = free_wire_edges d ! j" by (auto dest: py_get_Some)
  have s: "py_set (free_wire_edges d) w v = Some ((free_wire_edges d)[j := v])" for v
    using j by (simp add: py_set_def)
  from run e_in e_out g j s show ?thesis
    by (auto simp: tn_connect_def split: if_splits)
qed

lemma connect_gate_ok:
  assumes "connect_gate op_node num (enumerate i rest) d = (Inr u, d')"
    and "i + length rest = num"
    and "ndim (node_tensor op_node) = 2 * num"
    and "gate_loop_inv (node_id op_node) num i d"
  shows "gate_loop_inv (node_id op_node) num num d'
         \<and> length (free_wire_edges d') = length (free_wire_edges d)
         \<and> (\<forall>j < length (free_wire_edges d).
               (\<forall>w \<in> set rest. py_pos (length (free_wire_edges d)) w \<noteq> Some j) \<longrightarrow>
               free_wire_edges d' ! j = free_wire_edges d ! j)
         \<and> num_wires d' = num_wires d \<and> rep d' = rep d \<and> next_id d' = next_id d
         \<and> mps d' = mps d \<and> contracted_state_node d' = contracted_state_node d
         \<and> nodes d' = nodes d"
  using assms
proof (induction rest arbitrary: i d)
  case Nil
  then show ?case by simp
next
  case (Cons w rest)
  let ?k = "node_id op_node"
  let ?f = "free_wire_edges d"
  have idx: "i < num" using Cons.prems(2) by simp
  from Cons.prems(1) have run: "connect_gate op_node num ((i, w) # enumerate (Suc i) rest) d = (Inr u, d')"
    by simp
  from connect_gate_step [OF run Cons.prems(3) idx] obtain j where
    j: "py_pos (length ?f) w = Some j"
    and ne: "Edge ?k (num + i) \<noteq> ?f ! j"
    and rest: "connect_gate op_node num (enumerate (Suc i) rest)
                (d\<lparr>connections := connections d @ [(Edge ?k (num + i), ?f ! j)],
                   free_wire_edges := ?f[j := Edge ?k i]\<rparr>) = (Inr u, d')"
    by blast
  define d2 where "d2 = d\<lparr>connections := connections d @ [(Edge ?k (num + i), ?f ! j)],
                          free_wire_edges := ?f[j := Edge ?k i]\<rparr>"
  have jl: "j < length ?f" using j by (rule py_pos_less)
  note inv = Cons.prems(4) [unfolded gate_loop_inv_def list_all_iff]
  have dist: "distinct ?f" using inv by simp
  have fr: "\<forall>e \<in> set ?f. dangling (connections d) e \<and> (edge_node e < ?k \<or> (edge_node e = ?k \<and> edge_axis e < i))"
    using inv by simp
  have cs: "\<forall>c \<in> set (connections d). \<forall>e \<in> {fst c, snd c}. edge_node e < ?k
              \<or> (edge_node e = ?k \<and> (edge_axis e < i \<or> (num \<le> edge_axis e \<and> edge_axis e < num + i)))"
    using inv by simp
  have fj: "?f ! j \<in> set ?f" using jl by simp
  have new_not_in: "Edge ?k i \<notin> set ?f" using fr by auto
  have new_dangling: "dangling (connections d) (Edge ?k i)"
    using cs idx by (fastforce simp: dangling_def)
  have A: "distinct (free_wire_edges d2)"
    using dist new_not_in jl by (simp add: d2_def distinct_list_update)
  have B: "dangling (connections d2) e
           \<and> (edge_node e < ?k \<or> edge_node e = ?k \<and> edge_axis e < Suc i)"
    if e: "e \<in> set (free_wire_edges d2)" for e
  proof -
    from e have "e = Edge ?k i \<or> (e \<in> set ?f \<and> e \<noteq> ?f ! j)"
      using dist jl by (auto simp: d2_def set_update_distinct)
    then show ?thesis
    proof
      assume "e = Edge ?k i"
      then show ?thesis using new_dangling new_not_in fj idx
        by (auto simp: d2_def dangling_def)
    next
      assume a: "e \<in> set ?f \<and> e \<noteq> ?f ! j"
      then have "dangling (connections d) e" "edge_node e < ?k \<or> (edge_node e = ?k \<and> edge_axis e < i)"
        using fr by auto
      moreover have "e \<noteq> Edge ?k (num + i)" using calculation(2) by auto
      ultimately show ?thesis using a by (auto simp: d2_def dangling_def)
    qed
  qed
  have C: "edge_node e < ?k \<or> edge_node e = ?k
                 \<and> (edge_axis e < Suc i \<or> num \<le> edge_axis e \<and> edge_axis e < num + Suc i)"
    if c: "c \<in> set (connections d2)" and e: "e \<in> set [fst c, snd c]" for c e
  proof -
    from c have "c \<in> set (connections d) \<or> c = (Edge ?k (num + i), ?f ! j)"
      by (auto simp: d2_def)
    then show ?thesis
    proof
      assume "c \<in> set (connections d)"
      with cs e show ?thesis by fastforce
    next
      assume "c = (Edge ?k (num + i), ?f ! j)"
      with e fr fj show ?thesis by fastforce
    qed
  qed
  have inv2: "gate_loop_inv ?k num (Suc i) d2"
    unfolding gate_loop_inv_def list_all_iff using A B C by blast
  have p2: "Suc i + length rest = num" using Cons.prems(2) by simp
  from Cons.IH [OF rest [folded d2_def] p2 Cons.prems(3) inv2]
  have IH: "gate_loop_inv ?k num num d'"
    "length (free_wire_edges d') = length (free_wire_edges d2)"
    "\<forall>j' < length (free_wire_edges d2).
        (\<forall>w \<in> set rest. py_pos (length (free_wire_edges d2)) w \<noteq> Some j') \<longrightarrow>
        free_wire_edges d' ! j' = free_wire_edges d2 ! j'"
    "num_wires d' = num_wires d2" "rep d' = rep d2" "next_id d' = next_id d2"
    "mps d' = mps d2" "contracted_state_node d' = contracted_state_node d2" "nodes d' = nodes d2"
    by simp_all
  have keep: "\<forall>j' < length ?f. (\<forall>w' \<in> set (w # rest). py_pos (length ?f) w' \<noteq> Some j') \<longrightarrow>
                free_wire_edges d' ! j' = ?f ! j'"
  proof (intro allI impI)
    fix j' assume a: "j' < length ?f" "\<forall>w' \<in> set (w # rest). py_pos (length ?f) w' \<noteq> Some j'"
    then have "j' \<noteq> j" using j by auto
    moreover have "free_wire_edges d' ! j' = free_wire_edges d2 ! j'"
      using IH(3) a by (simp add: d2_def)
    ultimately show "free_wire_edges d' ! j' = ?f ! j'" by (simp add: d2_def)
  qed
  show ?case using IH keep by (simp add: d2_def)
qed

lemma same_configuration_refl [simp]: "same_configuration d d"
  by (simp add: same_configuration_def)

lemma same_configuration_trans:
  "same_configuration d d1 \<Longrightarrow> same_configuration d1 d2 \<Longrightarrow> same_configuration d d2"
  by (simp add: same_configuration_def)

lemma connect_gate_frame:
  "connect_gate op_node num its d = (r, d') \<Longrightarrow>
   same_configuration d d' \<and> mps d' = mps d \<and> nodes d' = nodes d \<and> next_id d' = next_id d
   \<and> (r = Inr () \<or> r = Inl IndexError \<or> r = Inl TNError)"
proof (induction its arbitrary: d)
  case Nil
  then show ?case by auto
next
  case (Cons a its)
  obtain idx w where a: "a = (idx, w)" by (cases a) auto
  show ?case
  proof (cases "\<exists>e_in e_free e_out es. node_edge op_node (int (num + idx)) = Some e_in
          \<and> py_get (free_wire_edges d) w = Some e_free
          \<and> fst (tn_connect e_in e_free d) = Inr ()
          \<and> node_edge op_node (int idx) = Some e_out
          \<and> py_set (free_wire_edges d) w e_out = Some es")
    case True
    then obtain e_in e_free e_out es where
      t: "node_edge op_node (int (num + idx)) = Some e_in"
         "py_get (free_wire_edges d) w = Some e_free"
         "fst (tn_connect e_in e_free d) = Inr ()"
         "node_edge op_node (int idx) = Some e_out"
         "py_set (free_wire_edges d) w e_out = Some es" by blast
    define d2 where "d2 = d\<lparr>connections := connections d @ [(e_in, e_free)], free_wire_edges := es\<rparr>"
    from t(3) have c: "tn_connect e_in e_free d = (Inr (), d\<lparr>connections := connections d @ [(e_in, e_free)]\<rparr>)"
      by (auto simp: tn_connect_def split: if_splits)
    from Cons.prems a t c have "connect_gate op_node num its d2 = (r, d')"
      by (simp add: d2_def)
    from Cons.IH [OF this] show ?thesis
      by (simp add: d2_def same_configuration_def)
  next
    case False
    with Cons.prems a show ?thesis
      by (auto simp: tn_connect_def same_configuration_def split: option.splits if_splits)
  qed
qed

lemma refresh_free_wire_edges_frame:
  "refresh_free_wire_edges ws d = (r, d') \<Longrightarrow>
   same_configuration d d' \<and> mps d' = mps d \<and> nodes d' = nodes d \<and> next_id d' = next_id d
   \<and> connections d' = connections d
   \<and> (r = Inr () \<or> r = Inl IndexError \<or> r = Inl AttributeError)"
proof (induction ws arbitrary: d)
  case Nil
  then show ?case by auto
next
  case (Cons w ws)
  show ?case
  proof (cases "\<exists>ms n e es. mps d = Some ms \<and> py_get ms w = Some n \<and> node_edge n 1 = Some e
                  \<and> py_set (free_wire_edges d) w e = Some es")
    case True
    then obtain ms n e es where t: "mps d = Some ms" "py_get ms w = Some n" "node_edge n 1 = Some e"
      "py_set (free_wire_edges d) w e = Some es" by blast
    with Cons.prems have "refresh_free_wire_edges ws (d\<lparr>free_wire_edges := es\<rparr>) = (r, d')"
      by simp
    from Cons.IH [OF this] show ?thesis by (simp add: same_configuration_def)
  next
    case False
    with Cons.prems show ?thesis
      by (auto simp: same_configuration_def split: option.splits)
  qed
qed

lemma mps_apply_one_site_gate_frame:
  "mps_apply_one_site_gate g site ms d = (r, d') \<Longrightarrow>
   same_configuration d d' \<and> mps d' = mps d \<and> nodes d' = nodes d
   \<and> connections d' = connections d \<and> free_wire_edges d' = free_wire_edges d
   \<and> (case r of Inl e \<Rightarrow> e = TNError \<and> d' = d | Inr ms' \<Rightarrow> True)"
  by (auto simp: mps_apply_one_site_gate_def tn_Node_def Let_def same_configuration_def
           split: if_splits)

lemma mps_apply_two_site_gate_frame:
  "mps_apply_two_site_gate g s1 s2 ms d = (r, d') \<Longrightarrow>
   same_configuration d d' \<and> mps d' = mps d \<and> nodes d' = nodes d
   \<and> connections d' = connections d \<and> free_wire_edges d' = free_wire_edges d
   \<and> (case r of Inl e \<Rightarrow> e = TNError \<and> d' = d | Inr ms' \<Rightarrow> True)"
  by (auto simp: mps_apply_two_site_gate_def tn_Node_def Let_def same_configuration_def
           split: if_splits)

lemma add_node_frame:
  "add_node A ws name key d = (n, d') \<Longrightarrow>
   same_configuration d d' \<and> mps d' = mps d \<and> connections d' = connections d
   \<and> free_wire_edges d' = free_wire_edges d \<and> next_id d \<le> next_id d'
   \<and> (\<forall>k. k \<noteq> key \<longrightarrow> nodes d' k = nodes d k)"
  by (cases A) (auto simp: add_node_Inl add_node_Inr same_configuration_def)

lemma add_gate_mps_frame:
  assumes "add_gate_mps op_node ws d = (r, d')"
  shows "same_configuration d d' \<and> nodes d' = nodes d \<and> connections d' = connections d
         \<and> (r = Inl NotSupported \<longrightarrow> d' = d)"
proof (cases "mps d")
  case None
  with assms show ?thesis by (auto simp: add_gate_mps_def split: if_splits)
next
  case (Some ms)
  consider (one) "length ws = 1" | (two) "length ws = 2" "\<bar>ws ! 1 - ws ! 0\<bar> = 1"
    | (other) "length ws \<noteq> 1" "\<not> (length ws = 2 \<and> \<bar>ws ! 1 - ws ! 0\<bar> = 1)" by auto
  then show ?thesis
  proof cases
    case one
    obtain r2 d2 where g: "mps_apply_one_site_gate op_node (ws ! 0) ms d = (r2, d2)"
      by (cases "mps_apply_one_site_gate op_node (ws ! 0) ms d") auto
    note G = mps_apply_one_site_gate_frame [OF g]
    show ?thesis
    proof (cases r2)
      case (Inl e)
      with assms Some one g G show ?thesis by (auto simp: add_gate_mps_def)
    next
      case (Inr ms')
      with assms Some one g
      have "refresh_free_wire_edges [ws ! 0] (d2\<lparr>mps := Some ms'\<rparr>) = (r, d')"
        by (simp add: add_gate_mps_def)
      from refresh_free_wire_edges_frame [OF this] G show ?thesis
        by (auto simp: same_configuration_def)
    qed
  next
    case two
    obtain r2 d2 where g: "mps_apply_two_site_gate op_node (ws ! 0) (ws ! 1) ms d = (r2, d2)"
      by (cases "mps_apply_two_site_gate op_node (ws ! 0) (ws ! 1) ms d") auto
    note G = mps_apply_two_site_gate_frame [OF g]
    show ?thesis
    proof (cases r2)
      case (Inl e)
      with assms Some two g G show ?thesis by (auto simp: add_gate_mps_def)
    next
      case (Inr ms')
      with assms Some two g
      have "refresh_free_wire_edges ws (d2\<lparr>mps := Some ms'\<rparr>) = (r, d')"
        by (simp add: add_gate_mps_def)
      from refresh_free_wire_edges_frame [OF this] G show ?thesis
        by (auto simp: same_configuration_def)
    qed
  next
    case other
    with assms Some show ?thesis by (auto simp: add_gate_mps_def split: if_splits)
  qed
qed

text \<open>
  The outcomes of a gate application: it fails before anything is touched, or the gate's
  node is registered and the branch of the representation runs.
\<close>

lemma add_gate_nodes_cases:
  assumes "add_gate_nodes operation wires par d = (r, d')"
  obtains (early) e where "r = Inl e" "d' = d"
      "get_operator_matrix operation par d = Inl e \<or> (wires = None \<and> e = TypeError)
       \<or> e = NumpyError"
    | (registered) A' ws op_node d1 M where "wires = Some ws"
      "add_node (Inl A') ws operation ''state'' d = (op_node, d1)"
      "ndim A' = 2 * length ws"
      "(if rep d = ''exact'' then connect_gate op_node (length ws) (enumerate 0 ws) d1
        else if rep d = ''mps'' then add_gate_mps op_node ws d1
        else (Inr (), d1)) = (r, d')"
      "get_operator_matrix operation par d = Inr M"
      "np_reshape M (replicate (length ws * 2) 2) = Inr A'"
proof (cases "\<exists>A ws A'. get_operator_matrix operation par d = Inr A \<and> wires = Some ws
                \<and> np_reshape A (replicate (length ws * 2) 2) = Inr A'")
  case False
  with assms have "\<exists>e. r = Inl e \<and> d' = d \<and>
      (get_operator_matrix operation par d = Inl e \<or> (wires = None \<and> e = TypeError)
       \<or> e = NumpyError)"
    by (auto simp: add_gate_nodes_def np_reshape_def
             split: sum.splits option.splits if_splits tensor.splits)
  with early show ?thesis by blast
next
  case True
  then obtain A ws A' where t: "get_operator_matrix operation par d = Inr A" "wires = Some ws"
    "np_reshape A (replicate (length ws * 2) 2) = Inr A'" by blast
  obtain op_node d1 where an: "add_node (Inl A') ws operation ''state'' d = (op_node, d1)"
    by (cases "add_node (Inl A') ws operation ''state'' d") auto
  have rp: "rep d1 = rep d" using an by (simp add: add_node_Inl) auto
  have nd: "ndim A' = 2 * length ws"
    using t(3) by (auto simp: np_reshape_def ndim_def split: if_splits tensor.splits)
  from assms t an rp
  have "(if rep d = ''exact'' then connect_gate op_node (length ws) (enumerate 0 ws) d1
        else if rep d = ''mps'' then add_gate_mps op_node ws d1
        else (Inr (), d1)) = (r, d')"
    by (auto simp: add_gate_nodes_def split: if_splits)
  with registered t an nd show ?thesis by blast
qed

text \<open>No gate touches the configuration or the cached contracted state.\<close>

lemma add_gate_nodes_frame:
  assumes "add_gate_nodes operation wires par d = (r, d')"
  shows "same_configuration d d'"
  using assms
proof (cases rule: add_gate_nodes_cases)
  case (early e)
  then show ?thesis by simp
next
  case (registered A' ws op_node d1)
  from add_node_frame [OF registered(2)] have s1: "same_configuration d d1" by simp
  have "same_configuration d1 d'"
    using registered(4)
    by (auto dest: connect_gate_frame add_gate_mps_frame split: if_splits)
  with s1 show ?thesis by (rule same_configuration_trans)
qed

lemma refresh_step:
  assumes "refresh_free_wire_edges (w # rest) d = (Inr u, d')"
  shows "\<exists>ms n j. mps d = Some ms \<and> py_get ms w = Some n \<and> 2 \<le> ndim (node_tensor n)
           \<and> py_pos (length (free_wire_edges d)) w = Some j
           \<and> refresh_free_wire_edges rest
                (d\<lparr>free_wire_edges := (free_wire_edges d)[j := Edge (node_id n) 1]\<rparr>) = (Inr u, d')"
proof -
  from assms obtain ms n e es where
    t: "mps d = Some ms" "py_get ms w = Some n" "node_edge n 1 = Some e"
       "py_set (free_wire_edges d) w e = Some es"
       "refresh_free_wire_edges rest (d\<lparr>free_wire_edges := es\<rparr>) = (Inr u, d')"
    by (auto split: option.splits)
  from t(3) have e: "e = Edge (node_id n) 1" "2 \<le> ndim (node_tensor n)"
    by (auto simp: node_edge_def py_pos_def split: if_splits)
  from t(4) obtain j where "py_pos (length (free_wire_edges d)) w = Some j"
    "es = (free_wire_edges d)[j := e]" by (auto dest: py_set_Some)
  with t e show ?thesis by auto
qed

lemma fresh_entry:
  assumes "distinct xs" "list_all (dangling cs) xs" "e \<notin> set xs" "dangling cs e" "j < length xs"
  shows "distinct (xs[j := e]) \<and> list_all (dangling cs) (xs[j := e])"
proof -
  have "set (xs[j := e]) \<subseteq> insert e (set xs)" by (rule set_update_subset_insert)
  then have "list_all (dangling cs) (xs[j := e])"
    using assms(2,4) by (auto simp: list_all_iff)
  moreover have "distinct (xs[j := e])"
    using assms(1,3) by (simp add: distinct_list_update)
  ultimately show ?thesis by simp
qed

lemma numbered_fresh:
  assumes "numbered d" "next_id d \<le> edge_node e"
  shows "e \<notin> set (free_wire_edges d)" "dangling (connections d) e"
  using assms by (fastforce simp: numbered_def list_all_iff dangling_def)+

text \<open>
  A gate on a chain that succeeds replaces the entries of its wires by edges of the new
  site nodes and leaves the other entries alone.
\<close>

lemma add_gate_mps_table:
  assumes run: "add_gate_mps op_node ws d = (Inr u, d')"
    and T: "one_entry_per_wire d" and N: "numbered d"
  shows "one_entry_per_wire d' \<and> numbered d'
         \<and> (\<forall>j < num_wires d. (\<forall>w \<in> set ws. py_pos (num_wires d) w \<noteq> Some j) \<longrightarrow>
               free_wire_edges d' ! j = free_wire_edges d ! j)"
proof -
  let ?f = "free_wire_edges d"
  let ?k = "next_id d"
  from T have len: "length ?f = num_wires d" and dist: "distinct ?f"
    and dang: "list_all (dangling (connections d)) ?f"
    by (simp_all add: one_entry_per_wire_def)
  from N have fb: "\<forall>e \<in> set ?f. edge_node e < ?k"
    and cb: "\<forall>c \<in> set (connections d). edge_node (fst c) < ?k \<and> edge_node (snd c) < ?k"
    by (simp_all add: numbered_def list_all_iff)
  from run obtain ms where ms: "mps d = Some ms"
    by (auto simp: add_gate_mps_def split: if_splits option.splits)
  consider (one) "length ws = 1" | (two) "length ws = 2" "\<bar>ws ! 1 - ws ! 0\<bar> = 1"
    using run by (auto simp: add_gate_mps_def split: if_splits)
  then show ?thesis
  proof cases
    case one
    then obtain w where ws: "ws = [w]" by (cases ws) auto
    from run ms ws obtain ms' d1 where
      g: "mps_apply_one_site_gate op_node w ms d = (Inr ms', d1)"
      and r: "refresh_free_wire_edges [w] (d1\<lparr>mps := Some ms'\<rparr>) = (Inr u, d')"
      by (auto simp: add_gate_mps_def split: prod.splits sum.splits)
    from g have site: "0 \<le> w" "w < int (length ms)"
      and d1: "d1 = d\<lparr>next_id := Suc ?k\<rparr>"
      and ms': "ms' = ms[nat w := Node ?k (node_name (ms ! nat w))
                                  (Lib (shape (node_tensor (ms ! nat w))) OneSiteGate
                                     [node_tensor op_node, node_tensor (ms ! nat w)])]"
      by (auto simp: mps_apply_one_site_gate_def tn_Node_def Let_def split: if_splits)
    from refresh_step [OF r] obtain n j where
      n: "py_get ms' w = Some n" and j: "py_pos (length ?f) w = Some j"
      and d': "d' = d1\<lparr>mps := Some ms', free_wire_edges := ?f[j := Edge (node_id n) 1]\<rparr>"
      by (auto simp: d1)
    have "node_id n = ?k" using n site by (auto simp: ms' py_get_def py_pos_def)
    then have e: "Edge (node_id n) 1 \<notin> set ?f" "dangling (connections d) (Edge (node_id n) 1)"
      using numbered_fresh [OF N, of "Edge (node_id n) 1"] by simp_all
    have jl: "j < length ?f" using j by (rule py_pos_less)
    from fresh_entry [OF dist dang e jl]
    have "one_entry_per_wire d'" using len by (simp add: one_entry_per_wire_def d' d1)
    moreover have "numbered d'"
      using fb cb \<open>node_id n = ?k\<close> set_update_subset_insert [of ?f j "Edge (node_id n) 1"]
      by (fastforce simp: numbered_def list_all_iff d' d1)
    moreover have "\<forall>j' < num_wires d. (\<forall>w' \<in> set ws. py_pos (num_wires d) w' \<noteq> Some j') \<longrightarrow>
                     free_wire_edges d' ! j' = ?f ! j'"
      using j len by (auto simp: ws d' d1)
    ultimately show ?thesis by simp
  next
    case two
    then obtain w0 w1 where ws: "ws = [w0, w1]"
      by (cases ws; cases "tl ws") auto
    from run ms ws two obtain ms' d1 where
      g: "mps_apply_two_site_gate op_node w0 w1 ms d = (Inr ms', d1)"
      and r: "refresh_free_wire_edges [w0, w1] (d1\<lparr>mps := Some ms'\<rparr>) = (Inr u, d')"
      by (auto simp: add_gate_mps_def split: prod.splits sum.splits)
    from g obtain l rr where site: "0 \<le> w0" "w1 = w0 + 1" "w1 < int (length ms)"
      and d1: "d1 = d\<lparr>next_id := Suc (Suc ?k)\<rparr>"
      and ms': "ms' = ms[nat w0 := l, nat w1 := rr]"
      and ids: "node_id l = ?k" "node_id rr = Suc ?k"
      by (auto simp: mps_apply_two_site_gate_def tn_Node_def Let_def split: if_splits)
    from refresh_step [OF r] obtain n0 j0 where
      n0: "py_get ms' w0 = Some n0" and j0: "py_pos (length ?f) w0 = Some j0"
      and r1: "refresh_free_wire_edges [w1]
                 (d1\<lparr>mps := Some ms', free_wire_edges := ?f[j0 := Edge (node_id n0) 1]\<rparr>) = (Inr u, d')"
      by (auto simp: d1)
    from refresh_step [OF r1] obtain n1 j1 where
      n1: "py_get ms' w1 = Some n1" and j1: "py_pos (length ?f) w1 = Some j1"
      and d': "d' = d1\<lparr>mps := Some ms',
                        free_wire_edges := ?f[j0 := Edge (node_id n0) 1, j1 := Edge (node_id n1) 1]\<rparr>"
      by (auto simp: d1)
    have i0: "node_id n0 = ?k" using n0 site ids by (auto simp: ms' py_get_def py_pos_def)
    have i1: "node_id n1 = Suc ?k" using n1 site ids by (auto simp: ms' py_get_def py_pos_def)
    have jl: "j0 < length ?f" "j1 < length ?f" using j0 j1 by (auto dest: py_pos_less)
    have e0: "Edge (node_id n0) 1 \<notin> set ?f" "dangling (connections d) (Edge (node_id n0) 1)"
      using numbered_fresh [OF N, of "Edge (node_id n0) 1"] i0 by simp_all
    note F0 = fresh_entry [OF dist dang e0 jl(1)]
    have e1: "Edge (node_id n1) 1 \<notin> set (?f[j0 := Edge (node_id n0) 1])"
      "dangling (connections d) (Edge (node_id n1) 1)"
      using numbered_fresh [OF N, of "Edge (node_id n1) 1"] i0 i1
            set_update_subset_insert [of ?f j0 "Edge (node_id n0) 1"]
      by auto
    have jl1: "j1 < length (?f[j0 := Edge (node_id n0) 1])" using jl by simp
    from fresh_entry [OF F0 [THEN conjunct1] F0 [THEN conjunct2] e1 jl1]
    have "one_entry_per_wire d'" using len by (simp add: one_entry_per_wire_def d' d1)
    moreover have "numbered d'"
    proof -
      have "set (?f[j0 := Edge (node_id n0) 1, j1 := Edge (node_id n1) 1])
              \<subseteq> insert (Edge (node_id n1) 1) (insert (Edge (node_id n0) 1) (set ?f))"
        using set_update_subset_insert [of ?f j0 "Edge (node_id n0) 1"]
              set_update_subset_insert [of "?f[j0 := Edge (node_id n0) 1]" j1 "Edge (node_id n1) 1"]
        by blast
      then show ?thesis using fb cb i0 i1
        by (fastforce simp: numbered_def list_all_iff d' d1)
    qed
    moreover have "\<forall>j' < num_wires d. (\<forall>w' \<in> set ws. py_pos (num_wires d) w' \<noteq> Some j') \<longrightarrow>
                     free_wire_edges d' ! j' = ?f ! j'"
      using j0 j1 len by (auto simp: ws d' d1)
    ultimately show ?thesis by simp
  qed
qed

text \<open>The same for the exact representation.\<close>

lemma add_gate_exact_table:
  assumes run: "connect_gate op_node (length ws) (enumerate 0 ws) d1 = (Inr u, d')"
    and nd: "ndim (node_tensor op_node) = 2 * length ws"
    and T: "one_entry_per_wire d1" and N: "numbered (d1\<lparr>next_id := node_id op_node\<rparr>)"
    and nx: "next_id d1 = Suc (node_id op_node)"
  shows "one_entry_per_wire d' \<and> numbered d'
         \<and> (\<forall>j < num_wires d1. (\<forall>w \<in> set ws. py_pos (num_wires d1) w \<noteq> Some j) \<longrightarrow>
               free_wire_edges d' ! j = free_wire_edges d1 ! j)"
proof -
  have inv0: "gate_loop_inv (node_id op_node) (length ws) 0 d1"
    using T N by (auto simp: gate_loop_inv_def one_entry_per_wire_def numbered_def list_all_iff)
  from connect_gate_ok [OF run _ nd inv0]
  have R: "gate_loop_inv (node_id op_node) (length ws) (length ws) d'"
    "length (free_wire_edges d') = length (free_wire_edges d1)"
    "\<forall>j < length (free_wire_edges d1).
        (\<forall>w \<in> set ws. py_pos (length (free_wire_edges d1)) w \<noteq> Some j) \<longrightarrow>
        free_wire_edges d' ! j = free_wire_edges d1 ! j"
    "num_wires d' = num_wires d1" "next_id d' = next_id d1"
    by simp_all
  have len: "length (free_wire_edges d1) = num_wires d1"
    using T by (simp add: one_entry_per_wire_def)
  have "one_entry_per_wire d'"
    using R len by (auto simp: gate_loop_inv_def one_entry_per_wire_def list_all_iff)
  moreover have "numbered d'"
    using R(1,5) nx
    by (fastforce simp: gate_loop_inv_def numbered_def list_all_iff)
  ultimately show ?thesis using R(3) len by simp
qed

subsection \<open>Preparation keeps the configuration\<close>

lemma add_exact_components_frame:
  "add_exact_components comps d = (r, d') \<Longrightarrow>
   same_configuration d d' \<and> mps d' = mps d \<and> connections d' = connections d
   \<and> (r = Inr () \<or> (r = Inl ShapeMismatch
                      \<and> \<not> list_all (\<lambda>c. ndim (fst c) = length (fst (snd c))) comps))"
proof (induction comps arbitrary: d)
  case Nil
  then show ?case by auto
next
  case (Cons c comps)
  obtain t ws name where c: "c = (t, ws, name)" by (cases c) auto
  show ?case
  proof (cases "ndim t = length ws")
    case False
    with Cons.prems c show ?thesis by auto
  next
    case True
    obtain n d1 where an: "add_node (Inl t) ws name ''state'' d = (n, d1)"
      by (cases "add_node (Inl t) ws name ''state'' d") auto
    with Cons.prems c True
    have run: "add_exact_components comps (d1\<lparr>free_wire_edges := free_wire_edges d1 @ edges n\<rparr>) = (r, d')"
      by simp
    from Cons.IH [OF run] add_node_frame [OF an] True c show ?thesis
      by (auto simp: same_configuration_def)
  qed
qed

lemma tn_Node_frame:
  "tn_Node A name d = (n, d') \<Longrightarrow>
   same_configuration d d' \<and> mps d' = mps d \<and> connections d' = connections d
   \<and> free_wire_edges d' = free_wire_edges d \<and> nodes d' = nodes d"
  by (auto simp: tn_Node_def same_configuration_def)

lemma tn_split_node_frame:
  "tn_split_node n d = (r, d') \<Longrightarrow>
   same_configuration d d' \<and> mps d' = mps d \<and> connections d' = connections d
   \<and> free_wire_edges d' = free_wire_edges d \<and> nodes d' = nodes d"
  by (auto simp: tn_split_node_def tn_Node_def Let_def same_configuration_def)

lemma split_wires_frame:
  "split_wires name len DV its acc d = (ns, d') \<Longrightarrow>
   same_configuration d d' \<and> mps d' = mps d \<and> connections d' = connections d
   \<and> free_wire_edges d' = free_wire_edges d"
proof (induction its arbitrary: DV acc d)
  case Nil
  then show ?case by auto
next
  case (Cons a its)
  obtain idx w where a: "a = (idx, w)" by (cases a) auto
  show ?case
  proof (cases "int idx < int len - 1")
    case True
    obtain node dA where a1: "tn_Node (tensor_of DV) name d = (node, dA)"
      by (cases "tn_Node (tensor_of DV) name d") auto
    obtain U DV' dB where a2: "tn_split_node node dA = ((U, DV'), dB)"
      by (cases "tn_split_node node dA") auto
    obtain node' dC where a3: "add_node (Inr U) [w] name ''state'' dB = (node', dC)"
      by (cases "add_node (Inr U) [w] name ''state'' dB") auto
    from Cons.prems a True a1 a2 a3
    have "split_wires name len (Inr DV') its (acc @ [node']) dC = (ns, d')" by simp
    from Cons.IH [OF this] tn_Node_frame [OF a1] tn_split_node_frame [OF a2] add_node_frame [OF a3]
    show ?thesis by (auto simp: same_configuration_def)
  next
    case False
    obtain n d1 where an: "add_node DV [w] name ''state'' d = (n, d1)"
      by (cases "add_node DV [w] name ''state'' d") auto
    with Cons.prems a False have "split_wires name len DV its (acc @ [n]) d1 = (ns, d')"
      by simp
    from Cons.IH [OF this] add_node_frame [OF an] show ?thesis
      by (auto simp: same_configuration_def)
  qed
qed

lemma add_mps_components_frame:
  "add_mps_components comps acc d = (r, d') \<Longrightarrow>
   same_configuration d d' \<and> mps d' = mps d \<and> connections d' = connections d
   \<and> free_wire_edges d' = free_wire_edges d
   \<and> (case r of Inr ns \<Rightarrow> True
       | Inl e \<Rightarrow> (e = ShapeMismatch
                    \<and> \<not> list_all (\<lambda>c. ndim (fst c) = length (fst (snd c))) comps)
                  \<or> e = ValueError \<or> e = NotSupported)"
proof (induction comps arbitrary: acc d)
  case Nil
  then show ?case by auto
next
  case (Cons c comps)
  obtain t ws name where c: "c = (t, ws, name)" by (cases c) auto
  define t' where "t' = expand_dims_last (expand_dims_first t)"
  show ?case
  proof (cases "ndim t = length ws")
    case False
    with Cons.prems c show ?thesis by auto
  next
    case rk: True
    show ?thesis
    proof (cases "shape t' = [1, 2, 1]")
      case True
      obtain n d1 where an: "add_node (Inl t') ws name ''state'' d = (n, d1)"
        by (cases "add_node (Inl t') ws name ''state'' d") auto
      with Cons.prems c rk True have run: "add_mps_components comps (acc @ [n]) d1 = (r, d')"
        by (simp add: t'_def [symmetric] Let_def)
      from Cons.IH [OF run] add_node_frame [OF an] rk c show ?thesis
        by (auto simp: same_configuration_def split: sum.splits)
    next
      case False
      show ?thesis
      proof (cases "ws = [] \<or> Max (set ws) - Min (set ws) \<noteq> int (length ws) - 1")
        case True
        with Cons.prems c rk False show ?thesis
          by (auto simp: t'_def [symmetric] Let_def split: if_splits)
      next
        case ok: False
        obtain ns1 d1 where sw: "split_wires name (length ws) (Inl t') (enumerate 0 ws) acc d = (ns1, d1)"
          by (cases "split_wires name (length ws) (Inl t') (enumerate 0 ws) acc d") auto
        with Cons.prems c rk False ok have run: "add_mps_components comps ns1 d1 = (r, d')"
          by (auto simp: t'_def [symmetric] Let_def)
        from Cons.IH [OF run] split_wires_frame [OF sw] rk c show ?thesis
          by (auto simp: same_configuration_def split: sum.splits)
      qed
    qed
  qed
qed

lemma add_initial_state_nodes_frame:
  assumes "add_initial_state_nodes tensors wires names d = (r, d')"
  shows "same_configuration d d' \<and> connections d' = connections d
         \<and> (r = Inl ShapeMismatch \<longrightarrow>
               \<not> list_all (\<lambda>c. ndim (fst c) = length (fst (snd c)))
                           (zip tensors (zip wires names)))
         \<and> r \<noteq> Inl InvalidWires"
proof -
  define comps where "comps = zip tensors (zip wires names)"
  consider (len) "\<not> (length tensors = length wires \<and> length wires = length names)"
    | (exact) "length tensors = length wires \<and> length wires = length names" "rep d = ''exact''"
    | (mps) "length tensors = length wires \<and> length wires = length names" "rep d \<noteq> ''exact''" "rep d = ''mps''"
    | (other) "length tensors = length wires \<and> length wires = length names" "rep d \<noteq> ''exact''" "rep d \<noteq> ''mps''"
    by blast
  then show ?thesis
  proof cases
    case len
    with assms show ?thesis by (auto simp: add_initial_state_nodes_def)
  next
    case exact
    with assms have "add_exact_components comps (d\<lparr>free_wire_edges := []\<rparr>) = (r, d')"
      by (simp add: add_initial_state_nodes_def comps_def)
    from add_exact_components_frame [OF this] show ?thesis
      by (auto simp: same_configuration_def comps_def)
  next
    case mps
    obtain r1 d1 where m: "add_mps_components comps [] d = (r1, d1)"
      by (cases "add_mps_components comps [] d") auto
    note M = add_mps_components_frame [OF m]
    show ?thesis
    proof (cases r1)
      case (Inl e)
      with assms mps m have "r = Inl e" "d' = d1"
        by (auto simp: add_initial_state_nodes_def comps_def)
      with M Inl show ?thesis by (auto simp: comps_def)
    next
      case (Inr ns)
      with assms mps m have "r \<noteq> Inl ShapeMismatch \<and> r \<noteq> Inl InvalidWires
          \<and> (d' = d1\<lparr>mps := Some ns\<rparr> \<or> (\<exists>es. d' = d1\<lparr>mps := Some ns, free_wire_edges := es\<rparr>))"
        by (auto simp: add_initial_state_nodes_def comps_def split: option.splits)
      with M show ?thesis by (auto simp: same_configuration_def)
    qed
  next
    case other
    with assms show ?thesis by (auto simp: add_initial_state_nodes_def)
  qed
qed

subsection \<open>Construction\<close>

lemma init_succeeds:
  assumes "r = ''exact'' \<or> r = ''mps''"
  shows "\<exists>d. init ops n k r m = Inr d \<and> contraction_method d = m \<and> rep d = r
             \<and> num_wires d = n \<and> shots d = k
             \<and> one_entry_per_wire d \<and> numbered d"
proof -
  define d0 where "d0 = \<lparr>num_wires = n, shots = k, rep = r, contraction_method = m,
                         operation_and_observable_map =
                           map_of (operation_map ops) ++ map_of (observable_map ops),
                         nodes = Map.empty, free_wire_edges = [], mps = None,
                         contracted_state_node = None, connections = [], next_id = 0\<rparr>"
  have rp: "rep d0 = ''exact'' \<or> rep d0 = ''mps''" using assms by (simp add: d0_def)
  from reset_succeeds [OF rp] obtain d where d: "reset d0 = (Inr (), d)" by blast
  from add_initial_state_nodes_frame [OF d [unfolded reset_def]]
  have frame: "contraction_method d = m" "shots d = k"
    by (simp_all add: same_configuration_def d0_def)
  from reset_table [OF d rp] frame d assms show ?thesis
    by (auto simp: init_def d0_def [symmetric]) (simp_all add: d0_def)
qed

lemma init_dev:
  "r = ''exact'' \<or> r = ''mps'' \<Longrightarrow> init pauli_ops n 1000 r ''auto'' = Inr (dev n r)"
  using init_succeeds [of r pauli_ops n 1000 "''auto''"] by (auto simp: dev_def)

subsection \<open>The wire-edge table\<close>

lemma outcome: "fst p = a \<Longrightarrow> p = (a, snd p)"
  by (cases p) simp

lemma state_prep_table:
  assumes "operation \<in> set [''QubitStateVector'', ''BasisState'']"
    and "rep d = ''exact'' \<or> rep d = ''mps''"
    and "dev_apply operation wires par d = (Inr (), d')"
  shows "one_entry_per_wire d' \<and> numbered d' \<and> num_wires d' = num_wires d \<and> rep d' = rep d"
proof -
  from assms(1,3) have "add_state_prep_nodes operation par (clear_network_data d) = (Inr (), d')"
    by (auto simp: dev_apply_def split: if_splits)
  from add_state_prep_nodes_table [OF this] assms(2) show ?thesis by simp
qed

lemma gate_table:
  assumes op: "operation \<notin> set [''QubitStateVector'', ''BasisState'']"
    and T: "one_entry_per_wire d" and N: "numbered d"
    and run: "dev_apply operation (Some ws) par d = (Inr (), d')"
  shows "one_entry_per_wire d' \<and> numbered d'
         \<and> (\<forall>j < num_wires d. (\<forall>w \<in> set ws. py_pos (num_wires d) w \<noteq> Some j) \<longrightarrow>
               free_wire_edges d' ! j = free_wire_edges d ! j)"
proof -
  from op run have g: "add_gate_nodes operation (Some ws) par d = (Inr (), d')"
    by (auto simp: dev_apply_def split: if_splits)
  then show ?thesis
  proof (cases rule: add_gate_nodes_cases)
    case (early e)
    then show ?thesis by simp
  next
    case (registered A' ws' op_node d1)
    then have ws: "ws' = ws" by simp
    from registered(2) have d1: "d1 = d\<lparr>next_id := Suc (next_id d),
        nodes := (nodes d)(''state'' \<mapsto> (case nodes d ''state'' of None \<Rightarrow> [] | Some ns \<Rightarrow> ns) @ [op_node])\<rparr>"
      and op_node: "node_id op_node = next_id d" "node_tensor op_node = A'"
      by (auto simp: add_node_Inl)
    have T1: "one_entry_per_wire d1" using T by (simp add: d1 one_entry_per_wire_def)
    have N1: "numbered d1" using N by (auto simp: d1 numbered_def list_all_iff)
    have N0: "numbered (d1\<lparr>next_id := node_id op_node\<rparr>)"
      using N by (simp add: d1 op_node numbered_def)
    have fr: "free_wire_edges d1 = free_wire_edges d" "num_wires d1 = num_wires d"
      by (simp_all add: d1)
    consider (exact) "rep d = ''exact''" | (mps) "rep d \<noteq> ''exact''" "rep d = ''mps''"
      | (other) "rep d \<noteq> ''exact''" "rep d \<noteq> ''mps''" by blast
    then show ?thesis
    proof cases
      case exact
      with registered(4) ws have "connect_gate op_node (length ws) (enumerate 0 ws) d1 = (Inr (), d')"
        by simp
      from add_gate_exact_table [OF this _ T1 N0] registered(3) ws op_node show ?thesis
        by (simp add: fr) (simp add: d1)
    next
      case mps
      with registered(4) ws have "add_gate_mps op_node ws d1 = (Inr (), d')" by simp
      from add_gate_mps_table [OF this T1 N1] show ?thesis by (simp add: fr)
    next
      case other
      with registered(4) have "d' = d1" by simp
      with T1 N1 show ?thesis by (simp add: fr)
    qed
  qed
qed

lemma dev_2_exact_reset: "fst (reset (dev 2 ''exact'')) = Inr ()"
  by code_simp

lemma dev_2_mps_basis_state:
  "fst (dev_apply ''BasisState'' (Some [0, 1]) [Ints [1, 0]] (dev 2 ''mps'')) = Inr ()"
  by code_simp

lemma dev_2_exact_cnot: "fst (dev_apply ''CNOT'' (Some [1, 0]) [] (dev 2 ''exact'')) = Inr ()"
  by code_simp

lemma dev_3_mps_cnot: "fst (dev_apply ''CNOT'' (Some [1, 2]) [] (dev 3 ''mps'')) = Inr ()"
  by code_simp

subsection \<open>The contraction method\<close>

lemma dev_1_exact_rep: "rep (dev 1 ''exact'') = ''exact''"
  by code_simp

text \<open>
  C5.  The setter of \<^verbatim>\<open>contraction_method\<close> rejects a name that is not one of greedy,
  branch, optimal and auto with \<open>InvalidConfig\<close> and leaves the device, and so the method
  configured before, as it was.  The constructor, however, checks the representation
  only: with a valid representation it accepts every method name and stores it, and an
  unknown name surfaces later, as Python's \<open>KeyError\<close>, when the exact representation
  first contracts its network.
\<close>

theorem unknown_contraction_method:
  "(mname \<notin> set contract_fns \<longrightarrow> set_contraction_method mname d = (Inl InvalidConfig, d))
   \<and> (r = ''exact'' \<or> r = ''mps'' \<longrightarrow>
        (\<exists>d0. init ops n k r mname = Inr d0 \<and> contraction_method d0 = mname))
   \<and> (mname \<notin> set contract_fns \<and> init ops n k ''exact'' mname = Inr d1 \<longrightarrow>
        fst (state d1) = Inl KeyError)"
proof -
  have A: "set_contraction_method mname d = (Inl InvalidConfig, d)"
    if "mname \<notin> set contract_fns"
    using that by (simp add: set_contraction_method_def)
  have B: "\<exists>d0. init ops n k r mname = Inr d0 \<and> contraction_method d0 = mname"
    if "r = ''exact'' \<or> r = ''mps''"
    using init_succeeds [OF that, of ops n k mname] by blast
  have C: "fst (state d1) = Inl KeyError"
    if m: "mname \<notin> set contract_fns" and i: "init ops n k ''exact'' mname = Inr d1"
  proof -
    from init_succeeds [of "''exact''" ops n k mname] i
    have c: "contraction_method d1 = mname" "rep d1 = ''exact''" by auto
    from i obtain d0 where r: "reset d0 = (Inr (), d1)"
      by (auto simp: init_def split: prod.splits sum.splits)
    from add_initial_state_nodes_frame [OF r [unfolded reset_def]]
    have "contracted_state_node d1 = None" by (simp add: same_configuration_def)
    with c m show ?thesis
      by (simp add: state_def contract_premeasurement_network_def)
  qed
  from A B C show ?thesis by blast
qed

theorem unknown_contraction_method_witness:
  "set_contraction_method ''bogus'' (dev 1 ''exact'') = (Inl InvalidConfig, dev 1 ''exact'')
   \<and> (\<exists>d0. init pauli_ops 1 1000 ''exact'' ''bogus'' = Inr d0
            \<and> contraction_method d0 = ''bogus'' \<and> fst (state d0) = Inl KeyError)"
proof -
  have nb: "''bogus'' \<notin> set contract_fns" by (simp add: contract_fns_def)
  note U = unknown_contraction_method [where mname = "''bogus''" and r = "''exact''"
             and d = "dev 1 ''exact''" and ops = pauli_ops and n = 1 and k = 1000]
  from U [THEN conjunct2, THEN conjunct1] obtain d0 where
    d0: "init pauli_ops 1 1000 ''exact'' ''bogus'' = Inr d0" "contraction_method d0 = ''bogus''"
    by auto
  from U [where ?d1.0 = d0, THEN conjunct2, THEN conjunct2] nb d0
  have "fst (state d0) = Inl KeyError" by simp
  with U [THEN conjunct1] nb d0 show ?thesis by blast
qed

subsection \<open>The cache of the contracted state\<close>

lemma state_cached:
  "contracted_state_node d = Some ket \<Longrightarrow> state d = (Inr (np_squeeze (node_tensor ket)), d)"
  by (simp add: state_def contract_premeasurement_network_def)

lemma state_fills_cache:
  assumes "state d = (Inr t, d1)"
  shows "\<exists>ket. contracted_state_node d1 = Some ket \<and> t = np_squeeze (node_tensor ket)"
  using assms by (auto simp: state_def split: prod.splits sum.splits option.splits)

lemma dev_1_exact_x_after_read:
  "fst (dev_apply ''PauliX'' (Some [0]) [] (snd (state (dev 1 ''exact'')))) = Inr ()"
  by code_simp

lemma dev_1_exact_read: "\<not> isl (fst (state (dev 1 ''exact'')))"
  by code_simp

lemma dev_1_exact_x_unread:
  "fst (state (snd (dev_apply ''PauliX'' (Some [0]) [] (dev 1 ''exact''))))
     \<noteq> fst (state (dev 1 ''exact''))"
  by code_simp

text \<open>
  C1, what the code does.  Once the contracted state has been read, the application of a
  gate leaves the cached node where it is, and the next read returns the tensor of the
  read before the gate.
\<close>

theorem gate_after_read_is_not_seen:
  "state d = (Inr t, d1) \<and> operation \<notin> set [''QubitStateVector'', ''BasisState'']
   \<and> dev_apply operation wires par d1 = (r, d2) \<longrightarrow>
     contracted_state_node d2 = contracted_state_node d1 \<and> state d2 = (Inr t, d2)"
proof (intro impI)
  assume a: "state d = (Inr t, d1) \<and> operation \<notin> set [''QubitStateVector'', ''BasisState'']
   \<and> dev_apply operation wires par d1 = (r, d2)"
  then obtain ket where k: "contracted_state_node d1 = Some ket" "t = np_squeeze (node_tensor ket)"
    using state_fills_cache by blast
  from a have "add_gate_nodes operation wires par d1 = (r, d2)"
    by (auto simp: dev_apply_def split: if_splits)
  from add_gate_nodes_frame [OF this] have "contracted_state_node d2 = contracted_state_node d1"
    by (simp add: same_configuration_def)
  with k state_cached [of d2 ket]
  show "contracted_state_node d2 = contracted_state_node d1 \<and> state d2 = (Inr t, d2)" by simp
qed

theorem gate_after_read_is_not_seen_witness:
  "fst (dev_apply ''PauliX'' (Some [0]) [] (snd (state (dev 1 ''exact'')))) = Inr ()
   \<and> fst (state (snd (dev_apply ''PauliX'' (Some [0]) [] (snd (state (dev 1 ''exact''))))))
       = fst (state (dev 1 ''exact''))
   \<and> fst (state (snd (dev_apply ''PauliX'' (Some [0]) [] (dev 1 ''exact''))))
       \<noteq> fst (state (dev 1 ''exact''))"
proof -
  from dev_1_exact_read obtain t where t: "fst (state (dev 1 ''exact'')) = Inr t"
    by (cases "fst (state (dev 1 ''exact''))") auto
  let ?d1 = "snd (state (dev 1 ''exact''))"
  let ?d2 = "snd (dev_apply ''PauliX'' (Some [0]) [] ?d1)"
  from gate_after_read_is_not_seen [of "dev 1 ''exact''" t ?d1 "''PauliX''" "Some [0]" "[]"
         "Inr ()" ?d2]
       outcome [OF t] outcome [OF dev_1_exact_x_after_read]
  have "state ?d2 = (Inr t, ?d2)" by simp
  with t dev_1_exact_x_after_read dev_1_exact_x_unread show ?thesis by simp
qed

subsection \<open>The contraction\<close>

lemma contract_chain_tensor:
  "contract_chain prev ns d = (r, d') \<Longrightarrow>
   (case chain_tensor (node_tensor prev) (map node_tensor ns) of
      Inl e \<Rightarrow> r = Inl e
    | Inr t \<Rightarrow> \<exists>p. r = Inr p \<and> node_tensor p = t \<and> (ns = [] \<longrightarrow> p = prev)
                    \<and> (ns \<noteq> [] \<longrightarrow> next_id d \<le> node_id p \<and> node_id p < next_id d'))
   \<and> same_configuration d d' \<and> mps d' = mps d \<and> nodes d' = nodes d
   \<and> connections d' = connections d \<and> free_wire_edges d' = free_wire_edges d
   \<and> next_id d \<le> next_id d'"
proof (induction ns arbitrary: prev d)
  case Nil
  then show ?case by auto
next
  case (Cons n ns)
  show ?case
  proof (cases "ndim (node_tensor prev) = 0 \<or> ndim (node_tensor n) = 0")
    case True
    with Cons.prems show ?thesis by auto
  next
    case False
    let ?t = "Lib (butlast (shape (node_tensor prev)) @ tl (shape (node_tensor n)))
                  (ContractBetween [(ndim (node_tensor prev) - 1, 0)])
                  [node_tensor prev, node_tensor n]"
    from Cons.prems False
    have run: "contract_chain (Node (next_id d) [] ?t) ns (d\<lparr>next_id := Suc (next_id d)\<rparr>) = (r, d')"
      by (simp add: tn_Node_def)
    from Cons.IH [OF run] False show ?thesis
      by (auto simp: same_configuration_def split: sum.splits)
  qed
qed

lemma update_node_fresh:
  assumes "\<forall>key ns. nodes d key = Some ns \<longrightarrow> (\<forall>m \<in> set ns. node_id m \<noteq> node_id n)"
    and "\<forall>ms. mps d = Some ms \<longrightarrow> (\<forall>m \<in> set ms. node_id m \<noteq> node_id n)"
  shows "update_node n d = d"
proof -
  have upd: "map (\<lambda>m. if node_id m = node_id n then n else m) ns = ns"
    if "\<forall>m \<in> set ns. node_id m \<noteq> node_id n" for ns
    using that by (induction ns) auto
  have "(\<lambda>key. map_option (map (\<lambda>m. if node_id m = node_id n then n else m)) (nodes d key)) = nodes d"
  proof
    fix key show "map_option (map (\<lambda>m. if node_id m = node_id n then n else m)) (nodes d key) = nodes d key"
      using assms(1) upd by (cases "nodes d key") auto
  qed
  moreover have "map_option (map (\<lambda>m. if node_id m = node_id n then n else m)) (mps d) = mps d"
    using assms(2) upd by (cases "mps d") auto
  ultimately show ?thesis by (simp add: update_node_def Let_def)
qed

lemma update_node_frame:
  "same_configuration d (update_node n d) \<and> connections (update_node n d) = connections d
   \<and> free_wire_edges (update_node n d) = free_wire_edges d
   \<and> next_id (update_node n d) = next_id d"
  by (simp add: update_node_def Let_def same_configuration_def)

text \<open>What the contraction does to the device, in terms of the tensor of the ket.\<close>

lemma contract_premeasurement_network_ket:
  assumes "contract_premeasurement_network d = (r, d')"
  shows "(case ket_tensor d of
            Inl e \<Rightarrow> r = Inl e \<and> contracted_state_node d' = None
          | Inr t \<Rightarrow> r = Inr () \<and> (\<exists>ket. contracted_state_node d' = Some ket \<and> node_tensor ket = t))
         \<and> num_wires d' = num_wires d \<and> shots d' = shots d \<and> rep d' = rep d
         \<and> contraction_method d' = contraction_method d
         \<and> operation_and_observable_map d' = operation_and_observable_map d
         \<and> free_wire_edges d' = free_wire_edges d \<and> connections d' = connections d
         \<and> next_id d \<le> next_id d'
         \<and> (rep d = ''exact'' \<longrightarrow> nodes d' = nodes d \<and> mps d' = mps d)
         \<and> (contracted_state_node d \<noteq> None \<longrightarrow> d' = d)"
proof (cases "contracted_state_node d")
  case (Some ket)
  with assms show ?thesis
    by (auto simp: contract_premeasurement_network_def ket_tensor_def)
next
  case None
  consider (exact) "rep d = ''exact''" | (mps) "rep d \<noteq> ''exact''" "rep d = ''mps''"
    | (other) "rep d \<noteq> ''exact''" "rep d \<noteq> ''mps''" by blast
  then show ?thesis
  proof cases
    case exact
    with assms None show ?thesis
      by (auto simp: contract_premeasurement_network_def ket_tensor_def tn_contract_def
                     tn_Node_def
               split: option.splits if_splits)
  next
    case other
    with assms None show ?thesis
      by (auto simp: contract_premeasurement_network_def ket_tensor_def)
  next
    case mps
    show ?thesis
    proof (cases "mps d")
      case N: None
      with assms None mps show ?thesis
        by (auto simp: contract_premeasurement_network_def ket_tensor_def)
    next
      case (Some ms)
      show ?thesis
      proof (cases ms)
        case Nil
        with assms None mps Some show ?thesis
          by (auto simp: contract_premeasurement_network_def ket_tensor_def)
      next
        case (Cons n rest)
        obtain r1 d1 where c: "contract_chain n rest d = (r1, d1)"
          by (cases "contract_chain n rest d") auto
        note C = contract_chain_tensor [OF c]
        show ?thesis
        proof (cases "chain_tensor (node_tensor n) (map node_tensor rest)")
          case (Inl e)
          with C have "r1 = Inl e" by simp
          with assms None mps Some Cons c C Inl show ?thesis
            by (auto simp: contract_premeasurement_network_def ket_tensor_def same_configuration_def)
        next
          case (Inr t)
          with C obtain p where p: "r1 = Inr p" "node_tensor p = t" by auto
          with assms None mps Some Cons c
          have "r = Inr ()"
            "d' = (update_node (Node (node_id p) ''Ket'' (np_squeeze t)) d1)
                    \<lparr>contracted_state_node := Some (Node (node_id p) ''Ket'' (np_squeeze t))\<rparr>"
            by (auto simp: contract_premeasurement_network_def Let_def)
          with C None mps Some Cons Inr update_node_frame [of d1 "Node (node_id p) ''Ket'' (np_squeeze t)"]
          show ?thesis
            by (auto simp: ket_tensor_def same_configuration_def)
        qed
      qed
    qed
  qed
qed

lemma state_ket_tensor:
  "fst (state d) = (case ket_tensor d of Inl e \<Rightarrow> Inl e | Inr t \<Rightarrow> Inr (np_squeeze t))"
proof -
  obtain r d' where c: "contract_premeasurement_network d = (r, d')"
    by (cases "contract_premeasurement_network d") auto
  from contract_premeasurement_network_ket [OF c] c show ?thesis
    by (auto simp: state_def split: sum.splits)
qed

subsection \<open>Rejected calls\<close>

lemma add_gate_mps_errors:
  assumes "add_gate_mps op_node ws d = (Inl e, d')"
  shows "e = NotSupported \<or> e = AttributeError \<or> e = TNError \<or> e = IndexError"
proof (cases "mps d")
  case None
  with assms show ?thesis by (auto simp: add_gate_mps_def split: if_splits)
next
  case (Some ms)
  consider (one) "length ws = 1" | (two) "length ws = 2" "\<bar>ws ! 1 - ws ! 0\<bar> = 1"
    | (other) "length ws \<noteq> 1" "\<not> (length ws = 2 \<and> \<bar>ws ! 1 - ws ! 0\<bar> = 1)" by auto
  then show ?thesis
  proof cases
    case one
    obtain r2 d2 where g: "mps_apply_one_site_gate op_node (ws ! 0) ms d = (r2, d2)"
      by (cases "mps_apply_one_site_gate op_node (ws ! 0) ms d") auto
    note G = mps_apply_one_site_gate_frame [OF g]
    show ?thesis
    proof (cases r2)
      case (Inl e2)
      with assms Some one g G show ?thesis by (auto simp: add_gate_mps_def)
    next
      case (Inr ms')
      with assms Some one g
      have "refresh_free_wire_edges [ws ! 0] (d2\<lparr>mps := Some ms'\<rparr>) = (Inl e, d')"
        by (simp add: add_gate_mps_def)
      from refresh_free_wire_edges_frame [OF this] show ?thesis by auto
    qed
  next
    case two
    obtain r2 d2 where g: "mps_apply_two_site_gate op_node (ws ! 0) (ws ! 1) ms d = (r2, d2)"
      by (cases "mps_apply_two_site_gate op_node (ws ! 0) (ws ! 1) ms d") auto
    note G = mps_apply_two_site_gate_frame [OF g]
    show ?thesis
    proof (cases r2)
      case (Inl e2)
      with assms Some two g G show ?thesis by (auto simp: add_gate_mps_def)
    next
      case (Inr ms')
      with assms Some two g
      have "refresh_free_wire_edges ws (d2\<lparr>mps := Some ms'\<rparr>) = (Inl e, d')"
        by (simp add: add_gate_mps_def)
      from refresh_free_wire_edges_frame [OF this] show ?thesis by auto
    qed
  next
    case other
    with assms Some show ?thesis by (auto simp: add_gate_mps_def split: if_splits)
  qed
qed

text \<open>
  A gate that is rejected with one of the errors of the taxonomy: either nothing was
  touched, or (matrix-product state, \<open>NotSupported\<close>) the gate's node is in the registry
  already and everything else is as it was.
\<close>

lemma gate_rejected:
  assumes run: "add_gate_nodes operation wires par d = (Inl e, d')"
    and e: "e = NotSupported \<or> e = InvalidWires \<or> e = ShapeMismatch"
  shows "d' = d
         \<or> (e = NotSupported \<and> rep d = ''mps''
            \<and> (\<exists>ws M A. wires = Some ws \<and> get_operator_matrix operation par d = Inr M
                  \<and> np_reshape M (replicate (length ws * 2) 2) = Inr A
                  \<and> d' = d\<lparr>next_id := Suc (next_id d),
                            nodes := (nodes d)(''state'' \<mapsto>
                              (case nodes d ''state'' of None \<Rightarrow> [] | Some ns \<Rightarrow> ns)
                              @ [Node (next_id d) (operation @ tuple_repr ws) A])\<rparr>))"
  using run
proof (cases rule: add_gate_nodes_cases)
  case (early e')
  then show ?thesis by simp
next
  case (registered A' ws op_node d1)
  consider (exact) "rep d = ''exact''" | (mps) "rep d \<noteq> ''exact''" "rep d = ''mps''"
    | (other) "rep d \<noteq> ''exact''" "rep d \<noteq> ''mps''" by blast
  then show ?thesis
  proof cases
    case exact
    with registered(4) have "connect_gate op_node (length ws) (enumerate 0 ws) d1 = (Inl e, d')"
      by simp
    from connect_gate_frame [OF this] e show ?thesis by auto
  next
    case mps
    with registered(4) have g: "add_gate_mps op_node ws d1 = (Inl e, d')" by simp
    from add_gate_mps_errors [OF g] e have ns: "e = NotSupported" by auto
    with add_gate_mps_frame [OF g] have "d' = d1" by simp
    with registered(1,2,5,6) ns mps show ?thesis by (auto simp: add_node_Inl)
  next
    case other
    with registered(4) show ?thesis by simp
  qed
qed

lemma gate_rejected_state:
  assumes run: "add_gate_nodes operation wires par d = (Inl e, d')"
    and e: "e = NotSupported \<or> e = InvalidWires \<or> e = ShapeMismatch"
  shows "free_wire_edges d' = free_wire_edges d \<and> mps d' = mps d
         \<and> contracted_state_node d' = contracted_state_node d
         \<and> connections d' = connections d
         \<and> (\<forall>key. key \<noteq> ''state'' \<longrightarrow> nodes d' key = nodes d key)
         \<and> fst (state d') = fst (state d)"
proof -
  from gate_rejected [OF run e] show ?thesis
  proof
    assume "d' = d" then show ?thesis by simp
  next
    assume "e = NotSupported \<and> rep d = ''mps''
        \<and> (\<exists>ws M A. wires = Some ws \<and> get_operator_matrix operation par d = Inr M
              \<and> np_reshape M (replicate (length ws * 2) 2) = Inr A
              \<and> d' = d\<lparr>next_id := Suc (next_id d),
                        nodes := (nodes d)(''state'' \<mapsto>
                          (case nodes d ''state'' of None \<Rightarrow> [] | Some ns \<Rightarrow> ns)
                          @ [Node (next_id d) (operation @ tuple_repr ws) A])\<rparr>)"
    then obtain n where m: "rep d = ''mps''"
      and d': "d' = d\<lparr>next_id := Suc (next_id d),
                      nodes := (nodes d)(''state'' \<mapsto>
                        (case nodes d ''state'' of None \<Rightarrow> [] | Some ns \<Rightarrow> ns) @ [n])\<rparr>"
      by blast
    have "ket_tensor d' = ket_tensor d"
      using m by (cases "contracted_state_node d") (simp_all add: ket_tensor_def d')
    then show ?thesis by (simp add: state_ket_tensor) (simp add: d')
  qed
qed

text \<open>A state preparation whose parameter is rejected has cleared the network already.\<close>

lemma state_prep_rejected:
  assumes run: "add_state_prep_nodes operation par d = (Inl e, d')"
    and e: "e = InvalidWires \<or> e = ShapeMismatch"
  shows "d' = d"
proof -
  have none: False
    if r: "add_initial_state_nodes ts ws ns d = (Inl e, d')"
      and ok: "list_all (\<lambda>c. ndim (fst c) = length (fst (snd c))) (zip ts (zip ws ns))"
    for ts ws ns
    using add_initial_state_nodes_frame [OF r] e ok by auto
  have vec: "ndim (if v = 0 then zero_state else Arr [2] [0, 1]) = 1" for v :: int
    by (simp add: ndim_def)
  show ?thesis
  proof (cases "operation = ''QubitStateVector''")
    case True
    show ?thesis
    proof (cases par)
      case Nil
      with run True show ?thesis by (simp add: add_state_prep_nodes_def)
    next
      case (Cons p ps)
      show ?thesis
      proof (cases "ndim (np_array p) = 1 \<and> shape (np_array p) ! 0 = 2 ^ num_wires d")
        case False
        with run True Cons show ?thesis by (auto simp: add_state_prep_nodes_def Let_def)
      next
        case sv: True
        show ?thesis
        proof (cases "np_reshape (np_array p) (replicate (num_wires d) 2)")
          case (Inl x)
          with run True Cons sv e show ?thesis
            by (auto simp: add_state_prep_nodes_def Let_def np_reshape_def split: if_splits tensor.splits)
        next
          case (Inr t)
          then have "ndim t = num_wires d"
            by (auto simp: np_reshape_def ndim_def split: if_splits tensor.splits)
          moreover from run True Cons sv Inr
          have "add_initial_state_nodes [t] [py_range (num_wires d)] [operation] d = (Inl e, d')"
            by (simp add: add_state_prep_nodes_def Let_def)
          ultimately show ?thesis using none by fastforce
        qed
      qed
    qed
  next
    case False
    show ?thesis
    proof (cases "\<exists>xs ps vs. operation = ''BasisState'' \<and> par = Ints xs # ps
              \<and> \<not> (length xs = 0 \<or> num_wires d < length xs \<or> \<not> set xs \<subseteq> {0, 1})
              \<and> those (map (py_get xs) (py_range (num_wires d))) = Some vs")
      case True
      then obtain xs ps vs where t: "operation = ''BasisState''" "par = Ints xs # ps"
        "\<not> (length xs = 0 \<or> num_wires d < length xs \<or> \<not> set xs \<subseteq> {0, 1})"
        "those (map (py_get xs) (py_range (num_wires d))) = Some vs" by blast
      then have len: "length vs = num_wires d" by (auto simp: read_all_wires split: if_splits)
      from run t have r: "add_initial_state_nodes
                      (map (\<lambda>v. if v = 0 then zero_state else Arr [2] [0, 1]) vs)
                      (map (\<lambda>w. [w]) (py_range (num_wires d)))
                      (replicate (num_wires d) operation) d = (Inl e, d')"
        by (simp add: add_state_prep_nodes_def Let_def)
      have "list_all (\<lambda>c. ndim (fst c) = length (fst (snd c)))
              (zip (map (\<lambda>v. if v = 0 then zero_state else Arr [2] [0, 1]) vs)
                   (zip (map (\<lambda>w. [w]) (py_range (num_wires d))) (replicate (num_wires d) operation)))"
        using vec by (auto simp: list_all_iff in_set_zip py_range_def)
      with none [OF r] show ?thesis by simp
    next
      case F: False
      with run False show ?thesis
        by (auto simp: add_state_prep_nodes_def Let_def
                 split: if_splits list.splits param.splits option.splits)
    qed
  qed
qed

lemma dev_2_exact_bad_vector:
  "fst (dev_apply ''QubitStateVector'' (Some [0, 1]) [Array (Arr [3] [1, 0, 0])] (dev 2 ''exact''))
     = Inl ShapeMismatch"
  by code_simp

lemma dev_2_exact_bad_vector_table:
  "free_wire_edges (snd (dev_apply ''QubitStateVector'' (Some [0, 1]) [Array (Arr [3] [1, 0, 0])]
                           (dev 2 ''exact''))) = []
   \<and> free_wire_edges (dev 2 ''exact'') = [Edge 0 0, Edge 1 0]"
  by code_simp

lemma dev_3_mps_far_cnot:
  "fst (dev_apply ''CNOT'' (Some [0, 2]) [] (dev 3 ''mps'')) = Inl NotSupported"
  by code_simp

lemma dev_3_mps_far_cnot_registry:
  "map_option length (nodes (snd (dev_apply ''CNOT'' (Some [0, 2]) [] (dev 3 ''mps''))) ''state'')
     = Some 4
   \<and> map_option length (nodes (dev 3 ''mps'') ''state'') = Some 3"
  by code_simp

theorem rejected_call_leaves_traces:
  "fst (dev_apply ''QubitStateVector'' (Some [0, 1]) [Array (Arr [3] [1, 0, 0])] (dev 2 ''exact''))
     = Inl ShapeMismatch
   \<and> free_wire_edges (snd (dev_apply ''QubitStateVector'' (Some [0, 1]) [Array (Arr [3] [1, 0, 0])]
                             (dev 2 ''exact'')))
       \<noteq> free_wire_edges (dev 2 ''exact'')
   \<and> fst (dev_apply ''CNOT'' (Some [0, 2]) [] (dev 3 ''mps'')) = Inl NotSupported
   \<and> nodes (snd (dev_apply ''CNOT'' (Some [0, 2]) [] (dev 3 ''mps''))) ''state''
       \<noteq> nodes (dev 3 ''mps'') ''state''"
  using dev_2_exact_bad_vector dev_2_exact_bad_vector_table dev_3_mps_far_cnot
        dev_3_mps_far_cnot_registry
  by auto

text \<open>
  C2, as the code has it.  A state preparation whose wire list is rejected
  (\<open>InvalidWires\<close>) leaves the device exactly as it was.  A state preparation whose wire
  list is accepted and whose parameter is then rejected (\<open>InvalidWires\<close>, \<open>ShapeMismatch\<close>)
  leaves the network cleared.  A gate that is rejected with \<open>NotSupported\<close>,
  \<open>InvalidWires\<close> or \<open>ShapeMismatch\<close> leaves the device exactly as it was, with one
  exception: on a matrix-product state, \<open>NotSupported\<close> is raised when the node of the
  gate (the operator matrix, reshaped for the wires of the gate) has been made and
  appended to the state nodes of the registry.  Then this one entry of the registry and
  the count of nodes made are all that has changed: the wire-edge table, the chain, the
  cached contracted state, the connections, the other keys and the earlier state nodes
  are as they were.  In both cases the next read of the state returns what it would
  have returned before the call.
\<close>

theorem rejected_calls:
  "(operation \<in> set [''QubitStateVector'', ''BasisState'']
      \<and> wires = Some ws \<and> ws \<noteq> [] \<and> ws \<noteq> py_range (num_wires d) \<longrightarrow>
      dev_apply operation wires par d = (Inl InvalidWires, d))
   \<and> (operation \<in> set [''QubitStateVector'', ''BasisState'']
      \<and> (wires = None \<or> wires = Some [] \<or> wires = Some (py_range (num_wires d)))
      \<and> dev_apply operation wires par d = (Inl e, d')
      \<and> (e = InvalidWires \<or> e = ShapeMismatch) \<longrightarrow>
      d' = clear_network_data d)
   \<and> (operation \<notin> set [''QubitStateVector'', ''BasisState'']
      \<and> dev_apply operation wires par d = (Inl e, d')
      \<and> (e = NotSupported \<or> e = InvalidWires \<or> e = ShapeMismatch) \<longrightarrow>
      (d' = d
       \<or> (e = NotSupported \<and> rep d = ''mps''
          \<and> (\<exists>gs M A. wires = Some gs \<and> get_operator_matrix operation par d = Inr M
                \<and> np_reshape M (replicate (length gs * 2) 2) = Inr A
                \<and> d' = d\<lparr>next_id := Suc (next_id d),
                          nodes := (nodes d)(''state'' \<mapsto>
                            (case nodes d ''state'' of None \<Rightarrow> [] | Some ns \<Rightarrow> ns)
                            @ [Node (next_id d) (operation @ tuple_repr gs) A])\<rparr>)))
      \<and> free_wire_edges d' = free_wire_edges d \<and> mps d' = mps d
      \<and> contracted_state_node d' = contracted_state_node d
      \<and> connections d' = connections d
      \<and> (\<forall>key. key \<noteq> ''state'' \<longrightarrow> nodes d' key = nodes d key)
      \<and> fst (state d') = fst (state d))"
proof -
  have A: "dev_apply operation wires par d = (Inl InvalidWires, d)"
    if "operation \<in> set [''QubitStateVector'', ''BasisState'']
        \<and> wires = Some ws \<and> ws \<noteq> [] \<and> ws \<noteq> py_range (num_wires d)"
    using that by (auto simp: dev_apply_def)
  have B: "d' = clear_network_data d"
    if "operation \<in> set [''QubitStateVector'', ''BasisState'']
      \<and> (wires = None \<or> wires = Some [] \<or> wires = Some (py_range (num_wires d)))
      \<and> dev_apply operation wires par d = (Inl e, d')
      \<and> (e = InvalidWires \<or> e = ShapeMismatch)"
  proof -
    from that have "add_state_prep_nodes operation par (clear_network_data d) = (Inl e, d')"
      by (auto simp: dev_apply_def)
    from state_prep_rejected [OF this] that show ?thesis by simp
  qed
  have C: "(d' = d
       \<or> (e = NotSupported \<and> rep d = ''mps''
          \<and> (\<exists>gs M A. wires = Some gs \<and> get_operator_matrix operation par d = Inr M
                \<and> np_reshape M (replicate (length gs * 2) 2) = Inr A
                \<and> d' = d\<lparr>next_id := Suc (next_id d),
                          nodes := (nodes d)(''state'' \<mapsto>
                            (case nodes d ''state'' of None \<Rightarrow> [] | Some ns \<Rightarrow> ns)
                            @ [Node (next_id d) (operation @ tuple_repr gs) A])\<rparr>)))
      \<and> free_wire_edges d' = free_wire_edges d \<and> mps d' = mps d
      \<and> contracted_state_node d' = contracted_state_node d
      \<and> connections d' = connections d
      \<and> (\<forall>key. key \<noteq> ''state'' \<longrightarrow> nodes d' key = nodes d key)
      \<and> fst (state d') = fst (state d)"
    if "operation \<notin> set [''QubitStateVector'', ''BasisState'']
      \<and> dev_apply operation wires par d = (Inl e, d')
      \<and> (e = NotSupported \<or> e = InvalidWires \<or> e = ShapeMismatch)"
  proof -
    from that have g: "add_gate_nodes operation wires par d = (Inl e, d')"
      and e: "e = NotSupported \<or> e = InvalidWires \<or> e = ShapeMismatch"
      by (auto simp: dev_apply_def split: if_splits)
    from gate_rejected [OF g e] gate_rejected_state [OF g e] show ?thesis by simp
  qed
  from A B C show ?thesis by blast
qed

lemma dev_3_mps_far_cnot_node:
  "nodes (snd (dev_apply ''CNOT'' (Some [0, 2]) [] (dev 3 ''mps''))) ''state''
     = Some (the (nodes (dev 3 ''mps'') ''state'')
             @ [Node 3 ''CNOT(0, 2)''
                  (Arr [2, 2, 2, 2] [1, 0, 0, 0,  0, 1, 0, 0,  0, 0, 0, 1,  0, 0, 1, 0])])
   \<and> next_id (snd (dev_apply ''CNOT'' (Some [0, 2]) [] (dev 3 ''mps''))) = 4
   \<and> next_id (dev 3 ''mps'') = 3"
  by code_simp

theorem rejected_calls_witness:
  "dev_apply ''BasisState'' (Some [1]) [Ints [1, 0]] (dev 2 ''exact'')
     = (Inl InvalidWires, dev 2 ''exact'')
   \<and> snd (dev_apply ''QubitStateVector'' (Some [0, 1]) [Array (Arr [3] [1, 0, 0])] (dev 2 ''exact''))
       = clear_network_data (dev 2 ''exact'')
   \<and> fst (dev_apply ''CNOT'' (Some [0, 2]) [] (dev 3 ''mps'')) = Inl NotSupported
   \<and> nodes (snd (dev_apply ''CNOT'' (Some [0, 2]) [] (dev 3 ''mps''))) ''state''
       = Some (the (nodes (dev 3 ''mps'') ''state'')
               @ [Node 3 ''CNOT(0, 2)''
                    (Arr [2, 2, 2, 2] [1, 0, 0, 0,  0, 1, 0, 0,  0, 0, 0, 1,  0, 0, 1, 0])])
   \<and> next_id (snd (dev_apply ''CNOT'' (Some [0, 2]) [] (dev 3 ''mps''))) = 4
   \<and> next_id (dev 3 ''mps'') = 3
   \<and> mps (snd (dev_apply ''CNOT'' (Some [0, 2]) [] (dev 3 ''mps''))) = mps (dev 3 ''mps'')
   \<and> free_wire_edges (snd (dev_apply ''CNOT'' (Some [0, 2]) [] (dev 3 ''mps'')))
       = free_wire_edges (dev 3 ''mps'')
   \<and> fst (state (snd (dev_apply ''CNOT'' (Some [0, 2]) [] (dev 3 ''mps''))))
       = fst (state (dev 3 ''mps''))"
proof -
  have a: "dev_apply ''BasisState'' (Some [1]) [Ints [1, 0]] (dev 2 ''exact'')
             = (Inl InvalidWires, dev 2 ''exact'')"
    using rejected_calls [where operation = "''BasisState''" and wires = "Some [1]" and ws = "[1]"
            and d = "dev 2 ''exact''" and par = "[Ints [1, 0]]", THEN conjunct1]
    by (simp add: dev_2_exact_wires py_range_def upt_rec)
  have b: "snd (dev_apply ''QubitStateVector'' (Some [0, 1]) [Array (Arr [3] [1, 0, 0])] (dev 2 ''exact''))
             = clear_network_data (dev 2 ''exact'')"
    using rejected_calls [where operation = "''QubitStateVector''" and wires = "Some [0, 1]"
            and d = "dev 2 ''exact''" and par = "[Array (Arr [3] [1, 0, 0])]"
            and e = ShapeMismatch
            and d' = "snd (dev_apply ''QubitStateVector'' (Some [0, 1]) [Array (Arr [3] [1, 0, 0])]
                             (dev 2 ''exact''))", THEN conjunct2, THEN conjunct1]
          outcome [OF dev_2_exact_bad_vector]
    by (simp add: dev_2_exact_wires py_range_def upt_rec)
  have c: "mps (snd (dev_apply ''CNOT'' (Some [0, 2]) [] (dev 3 ''mps''))) = mps (dev 3 ''mps'')
           \<and> free_wire_edges (snd (dev_apply ''CNOT'' (Some [0, 2]) [] (dev 3 ''mps'')))
               = free_wire_edges (dev 3 ''mps'')
           \<and> fst (state (snd (dev_apply ''CNOT'' (Some [0, 2]) [] (dev 3 ''mps''))))
               = fst (state (dev 3 ''mps''))"
    using rejected_calls [where operation = "''CNOT''" and wires = "Some [0, 2]"
            and d = "dev 3 ''mps''" and par = "[]" and e = NotSupported
            and d' = "snd (dev_apply ''CNOT'' (Some [0, 2]) [] (dev 3 ''mps''))",
            THEN conjunct2, THEN conjunct2]
          outcome [OF dev_3_mps_far_cnot]
    by simp
  from a b c dev_3_mps_far_cnot dev_3_mps_far_cnot_node show ?thesis by simp
qed

subsection \<open>Shapes that do not fit\<close>

lemma add_exact_components_append:
  "add_exact_components (xs @ ys) d =
     (case add_exact_components xs d of
        (Inl e, d1) \<Rightarrow> (Inl e, d1)
      | (Inr u, d1) \<Rightarrow> add_exact_components ys d1)"
proof (induction xs arbitrary: d)
  case Nil
  then show ?case by simp
next
  case (Cons c xs)
  then show ?case by (cases c) (simp split: prod.splits)
qed

lemma add_mps_components_append:
  "add_mps_components (xs @ ys) acc d =
     (case add_mps_components xs acc d of
        (Inl e, d1) \<Rightarrow> (Inl e, d1)
      | (Inr ns, d1) \<Rightarrow> add_mps_components ys ns d1)"
proof (induction xs arbitrary: acc d)
  case Nil
  then show ?case by simp
next
  case (Cons c xs)
  then show ?case by (cases c) (simp add: Let_def split: prod.splits)
qed

lemma zip3_split:
  assumes "length ts = length ws" "length ws = length ns" "i < length ts"
  shows "zip ts (zip ws ns) =
           zip (take i ts) (zip (take i ws) (take i ns))
           @ (ts ! i, ws ! i, ns ! i) # zip (drop (Suc i) ts) (zip (drop (Suc i) ws) (drop (Suc i) ns))"
proof -
  have l: "i < length (zip ts (zip ws ns))" using assms by simp
  have n: "zip ts (zip ws ns) ! i = (ts ! i, ws ! i, ns ! i)" using assms by simp
  from id_take_nth_drop [OF l] show ?thesis
    unfolding n by (simp only: take_zip drop_zip)
qed

lemma add_exact_components_accepts:
  "add_exact_components comps d = (Inr u, d') \<Longrightarrow>
   list_all (\<lambda>c. ndim (fst c) = length (fst (snd c))) comps"
proof (induction comps arbitrary: d)
  case Nil
  then show ?case by simp
next
  case (Cons c comps)
  obtain t ws name where c: "c = (t, ws, name)" by (cases c) auto
  from Cons.prems c have rk: "ndim t = length ws" by (auto split: if_splits)
  with Cons.prems c obtain d1 where "add_exact_components comps d1 = (Inr u, d')"
    by (auto simp: add_node_Inl)
  from Cons.IH [OF this] rk c show ?case by simp
qed

lemma shape_mismatch_at:
  assumes rp: "rep d = ''exact'' \<or> rep d = ''mps''"
    and len: "length tensors = length wires" "length wires = length names"
    and i: "i < length tensors" and bad: "ndim (tensors ! i) \<noteq> length (wires ! i)"
    and pre: "add_initial_state_nodes (take i tensors) (take i wires) (take i names) d = (Inr (), dp)"
  shows "fst (add_initial_state_nodes tensors wires names d) = Inl ShapeMismatch
         \<and> nodes (snd (add_initial_state_nodes tensors wires names d)) = nodes dp
         \<and> next_id (snd (add_initial_state_nodes tensors wires names d)) = next_id dp"
proof -
  let ?pre = "zip (take i tensors) (zip (take i wires) (take i names))"
  let ?post = "zip (drop (Suc i) tensors) (zip (drop (Suc i) wires) (drop (Suc i) names))"
  note z = zip3_split [OF len i]
  have lp: "length (take i tensors) = length (take i wires)"
    "length (take i wires) = length (take i names)" using len by simp_all
  show ?thesis
  proof (cases "rep d = ''exact''")
    case True
    from pre True lp have "add_exact_components ?pre (d\<lparr>free_wire_edges := []\<rparr>) = (Inr (), dp)"
      by (simp add: add_initial_state_nodes_def)
    then have "add_exact_components (zip tensors (zip wires names)) (d\<lparr>free_wire_edges := []\<rparr>)
                 = (Inl ShapeMismatch, dp)"
      using bad by (simp add: z add_exact_components_append)
    with True len show ?thesis by (simp add: add_initial_state_nodes_def)
  next
    case False
    with rp have m: "rep d = ''mps''" by simp
    from pre m False lp obtain ns d1 where
      p: "add_mps_components ?pre [] d = (Inr ns, d1)"
      and dp: "nodes dp = nodes d1" "next_id dp = next_id d1"
      by (auto simp: add_initial_state_nodes_def split: prod.splits sum.splits option.splits)
    then have "add_mps_components (zip tensors (zip wires names)) [] d = (Inl ShapeMismatch, d1)"
      using bad by (simp add: z add_mps_components_append)
    with m False len dp show ?thesis by (simp add: add_initial_state_nodes_def)
  qed
qed

lemma shape_mismatch_exact:
  assumes rp: "rep d = ''exact''"
    and len: "length tensors = length wires" "length wires = length names"
    and bad: "\<exists>i < length tensors. ndim (tensors ! i) \<noteq> length (wires ! i)"
  shows "fst (add_initial_state_nodes tensors wires names d) = Inl ShapeMismatch"
proof -
  obtain r d' where run: "add_exact_components (zip tensors (zip wires names))
                            (d\<lparr>free_wire_edges := []\<rparr>) = (r, d')"
    by (cases "add_exact_components (zip tensors (zip wires names)) (d\<lparr>free_wire_edges := []\<rparr>)") auto
  from bad obtain i where i: "i < length tensors" "ndim (tensors ! i) \<noteq> length (wires ! i)"
    by blast
  then have "(tensors ! i, wires ! i, names ! i) \<in> set (zip tensors (zip wires names))"
    using len by (auto simp: in_set_zip intro!: exI [of _ i])
  with i have nall: "\<not> list_all (\<lambda>c. ndim (fst c) = length (fst (snd c))) (zip tensors (zip wires names))"
    by (auto simp: list_all_iff intro!: bexI [of _ "(tensors ! i, wires ! i, names ! i)"])
  have "r \<noteq> Inr ()"
  proof
    assume "r = Inr ()"
    with add_exact_components_accepts nall run show False by blast
  qed
  with add_exact_components_frame [OF run] have "r = Inl ShapeMismatch" by auto
  with run rp len show ?thesis by (simp add: add_initial_state_nodes_def)
qed

text \<open>
  C9.  The components of a preparation are checked one after the other, each one before
  its node is made.  In a call whose three sequences have the same length and whose
  components before component \<open>i\<close> are all accepted, a component \<open>i\<close> whose rank differs from
  the length of its wire group raises \<open>ShapeMismatch\<close>, and the registry holds the nodes of
  the earlier components only: no node is made for the component.  In the exact
  representation the rank is the only thing a component is checked for, so that a
  component whose rank does not fit ends the call with \<open>ShapeMismatch\<close> wherever it stands.
  A \<^verbatim>\<open>QubitStateVector\<close> whose parameter is not a vector of length \<open>2 ^ num_wires\<close> raises
  \<open>ShapeMismatch\<close> and leaves the device as it is.
\<close>

theorem shape_mismatch:
  "((rep d = ''exact'' \<or> rep d = ''mps'')
      \<and> length tensors = length wires \<and> length wires = length names
      \<and> i < length tensors \<and> ndim (tensors ! i) \<noteq> length (wires ! i)
      \<and> add_initial_state_nodes (take i tensors) (take i wires) (take i names) d = (Inr (), dp)
      \<longrightarrow>
      fst (add_initial_state_nodes tensors wires names d) = Inl ShapeMismatch
      \<and> nodes (snd (add_initial_state_nodes tensors wires names d)) = nodes dp
      \<and> next_id (snd (add_initial_state_nodes tensors wires names d)) = next_id dp)
   \<and> (rep d = ''exact''
      \<and> length tensors = length wires \<and> length wires = length names
      \<and> (\<exists>j < length tensors. ndim (tensors ! j) \<noteq> length (wires ! j)) \<longrightarrow>
      fst (add_initial_state_nodes tensors wires names d) = Inl ShapeMismatch)
   \<and> (\<not> (ndim (np_array p) = 1 \<and> shape (np_array p) ! 0 = 2 ^ num_wires d) \<longrightarrow>
      add_state_prep_nodes ''QubitStateVector'' (p # ps) d = (Inl ShapeMismatch, d))"
proof -
  have A: "fst (add_initial_state_nodes tensors wires names d) = Inl ShapeMismatch
      \<and> nodes (snd (add_initial_state_nodes tensors wires names d)) = nodes dp
      \<and> next_id (snd (add_initial_state_nodes tensors wires names d)) = next_id dp"
    if "(rep d = ''exact'' \<or> rep d = ''mps'')
      \<and> length tensors = length wires \<and> length wires = length names
      \<and> i < length tensors \<and> ndim (tensors ! i) \<noteq> length (wires ! i)
      \<and> add_initial_state_nodes (take i tensors) (take i wires) (take i names) d = (Inr (), dp)"
    using that shape_mismatch_at [of d tensors wires names i dp] by simp
  have B: "fst (add_initial_state_nodes tensors wires names d) = Inl ShapeMismatch"
    if "rep d = ''exact''
      \<and> length tensors = length wires \<and> length wires = length names
      \<and> (\<exists>j < length tensors. ndim (tensors ! j) \<noteq> length (wires ! j))"
    by (rule shape_mismatch_exact) (use that in blast)+
  have C: "add_state_prep_nodes ''QubitStateVector'' (p # ps) d = (Inl ShapeMismatch, d)"
    if "\<not> (ndim (np_array p) = 1 \<and> shape (np_array p) ! 0 = 2 ^ num_wires d)"
    using that by (auto simp: add_state_prep_nodes_def Let_def)
  from A B C show ?thesis by blast
qed

lemma dev_2_exact_first_component:
  "fst (add_initial_state_nodes [zero_state] [[0]] [''A''] (clear_network_data (dev 2 ''exact'')))
     = Inr ()"
  by code_simp

lemma dev_2_mps_first_component:
  "fst (add_initial_state_nodes [zero_state] [[0]] [''A''] (clear_network_data (dev 2 ''mps'')))
     = Inr ()"
  by code_simp

lemma dev_2_reps:
  "rep (clear_network_data (dev 2 ''exact'')) = ''exact''"
  "rep (clear_network_data (dev 2 ''mps'')) = ''mps''"
  "num_wires (dev 2 ''mps'') = 2"
  by code_simp+

theorem shape_mismatch_witness:
  "fst (add_initial_state_nodes [zero_state, Arr [2, 2] [1, 0, 0, 0]] [[0], [1]] [''A'', ''B'']
          (clear_network_data (dev 2 ''mps''))) = Inl ShapeMismatch
   \<and> nodes (snd (add_initial_state_nodes [zero_state, Arr [2, 2] [1, 0, 0, 0]] [[0], [1]]
                    [''A'', ''B''] (clear_network_data (dev 2 ''mps''))))
       = nodes (snd (add_initial_state_nodes [zero_state] [[0]] [''A'']
                       (clear_network_data (dev 2 ''mps''))))
   \<and> next_id (snd (add_initial_state_nodes [zero_state, Arr [2, 2] [1, 0, 0, 0]] [[0], [1]]
                    [''A'', ''B''] (clear_network_data (dev 2 ''mps''))))
       = next_id (snd (add_initial_state_nodes [zero_state] [[0]] [''A'']
                       (clear_network_data (dev 2 ''mps''))))
   \<and> fst (add_initial_state_nodes [Arr [2, 2] [1, 0, 0, 0], zero_state] [[0], [1]] [''A'', ''B'']
            (clear_network_data (dev 2 ''exact''))) = Inl ShapeMismatch
   \<and> add_state_prep_nodes ''QubitStateVector'' [Array (Arr [3] [1, 0, 0])] (dev 2 ''mps'')
       = (Inl ShapeMismatch, dev 2 ''mps'')"
proof -
  have a: "fst (add_initial_state_nodes [zero_state, Arr [2, 2] [1, 0, 0, 0]] [[0], [1]] [''A'', ''B'']
          (clear_network_data (dev 2 ''mps''))) = Inl ShapeMismatch
   \<and> nodes (snd (add_initial_state_nodes [zero_state, Arr [2, 2] [1, 0, 0, 0]] [[0], [1]]
                    [''A'', ''B''] (clear_network_data (dev 2 ''mps''))))
       = nodes (snd (add_initial_state_nodes [zero_state] [[0]] [''A'']
                       (clear_network_data (dev 2 ''mps''))))
   \<and> next_id (snd (add_initial_state_nodes [zero_state, Arr [2, 2] [1, 0, 0, 0]] [[0], [1]]
                    [''A'', ''B''] (clear_network_data (dev 2 ''mps''))))
       = next_id (snd (add_initial_state_nodes [zero_state] [[0]] [''A'']
                       (clear_network_data (dev 2 ''mps''))))"
    using shape_mismatch [where d = "clear_network_data (dev 2 ''mps'')"
            and tensors = "[zero_state, Arr [2, 2] [1, 0, 0, 0]]" and wires = "[[0], [1]]"
            and names = "[''A'', ''B'']" and i = 1
            and dp = "snd (add_initial_state_nodes [zero_state] [[0]] [''A'']
                             (clear_network_data (dev 2 ''mps'')))", THEN conjunct1]
          outcome [OF dev_2_mps_first_component] dev_2_reps
    by (simp add: ndim_def)
  have b: "fst (add_initial_state_nodes [Arr [2, 2] [1, 0, 0, 0], zero_state] [[0], [1]] [''A'', ''B'']
            (clear_network_data (dev 2 ''exact''))) = Inl ShapeMismatch"
    using shape_mismatch [where d = "clear_network_data (dev 2 ''exact'')"
            and tensors = "[Arr [2, 2] [1, 0, 0, 0], zero_state]" and wires = "[[0], [1]]"
            and names = "[''A'', ''B'']", THEN conjunct2, THEN conjunct1]
          dev_2_reps
    by (auto simp: ndim_def)
  have c: "add_state_prep_nodes ''QubitStateVector'' [Array (Arr [3] [1, 0, 0])] (dev 2 ''mps'')
       = (Inl ShapeMismatch, dev 2 ''mps'')"
    using shape_mismatch [where p = "Array (Arr [3] [1, 0, 0])" and d = "dev 2 ''mps''" and ps = "[]",
            THEN conjunct2, THEN conjunct2]
          dev_2_reps
    by simp
  from a b c show ?thesis by simp
qed

subsection \<open>The wires of a state preparation\<close>

lemma add_exact_components_run:
  assumes "add_exact_components comps d = (Inr u, d')"
  shows "next_id d' = next_id d + length comps
         \<and> free_wire_edges d' = free_wire_edges d
             @ concat (map (\<lambda>c. edges (component_node c)) (enumerate (next_id d) comps))
         \<and> (comps \<noteq> [] \<longrightarrow> nodes d' ''state'' =
               Some ((case nodes d ''state'' of None \<Rightarrow> [] | Some ns \<Rightarrow> ns)
                     @ map component_node (enumerate (next_id d) comps)))
         \<and> (comps = [] \<longrightarrow> nodes d' = nodes d)
         \<and> (\<forall>key. key \<noteq> ''state'' \<longrightarrow> nodes d' key = nodes d key)"
  using assms
proof (induction comps arbitrary: d)
  case Nil
  then show ?case by simp
next
  case (Cons c comps)
  obtain t ws name where c: "c = (t, ws, name)" by (cases c) auto
  from Cons.prems c have rk: "ndim t = length ws" by (auto split: if_splits)
  let ?n = "Node (next_id d) (name @ tuple_repr ws) t"
  let ?old = "case nodes d ''state'' of None \<Rightarrow> [] | Some ns \<Rightarrow> ns"
  define d1 where "d1 = d\<lparr>next_id := next_id d + 1,
                          nodes := (nodes d)(''state'' \<mapsto> ?old @ [?n]),
                          free_wire_edges := free_wire_edges d @ edges ?n\<rparr>"
  from Cons.prems c rk have run: "add_exact_components comps d1 = (Inr u, d')"
    by (simp add: d1_def add_node_Inl)
  note IH = Cons.IH [OF run]
  have f: "next_id d1 = Suc (next_id d)" "nodes d1 ''state'' = Some (?old @ [?n])"
    "free_wire_edges d1 = free_wire_edges d @ edges ?n"
    "\<And>key. key \<noteq> ''state'' \<Longrightarrow> nodes d1 key = nodes d key"
    by (simp_all add: d1_def)
  have st: "nodes d' ''state'' = Some (?old @ ?n # map component_node (enumerate (Suc (next_id d)) comps))"
  proof (cases "comps = []")
    case True
    with IH f show ?thesis by simp
  next
    case False
    with IH f show ?thesis by simp
  qed
  from IH f st show ?case by (simp add: c component_node_def)
qed

lemma enumerate_zip3:
  assumes "length ts = n" "length wss = n" "length names = n"
  shows "map f (enumerate k (zip ts (zip wss names)))
           = map (\<lambda>i. f (k + i, ts ! i, wss ! i, names ! i)) [0..<n]"
  using assms by (auto simp: list_eq_iff_nth_eq nth_enumerate_eq)

lemma add_mps_components_run:
  assumes "list_all (\<lambda>c. shape (fst c) = [2] \<and> length (fst (snd c)) = 1) comps"
    and "add_mps_components comps acc d = (Inr ns, d')"
  shows "ns = acc @ map chain_node (enumerate (next_id d) comps)
         \<and> next_id d' = next_id d + length comps
         \<and> (comps \<noteq> [] \<longrightarrow> nodes d' ''state'' =
               Some ((case nodes d ''state'' of None \<Rightarrow> [] | Some ns \<Rightarrow> ns)
                     @ map chain_node (enumerate (next_id d) comps)))
         \<and> (comps = [] \<longrightarrow> nodes d' = nodes d)
         \<and> (\<forall>key. key \<noteq> ''state'' \<longrightarrow> nodes d' key = nodes d key)"
  using assms
proof (induction comps arbitrary: acc d)
  case Nil
  then show ?case by simp
next
  case (Cons c comps)
  obtain t ws name where c: "c = (t, ws, name)" by (cases c) auto
  from Cons.prems(1) c have t: "shape t = [2]" "length ws = 1" by auto
  let ?t = "expand_dims_last (expand_dims_first t)"
  have sh: "shape ?t = [1, 2, 1]"
    using t by (cases t) (auto simp: expand_dims_last_def expand_dims_first_def)
  let ?n = "Node (next_id d) (name @ tuple_repr ws) ?t"
  let ?old = "case nodes d ''state'' of None \<Rightarrow> [] | Some ns \<Rightarrow> ns"
  define d1 where "d1 = d\<lparr>next_id := next_id d + 1,
                          nodes := (nodes d)(''state'' \<mapsto> ?old @ [?n])\<rparr>"
  from Cons.prems(2) c t sh have run: "add_mps_components comps (acc @ [?n]) d1 = (Inr ns, d')"
    by (simp add: d1_def add_node_Inl ndim_def Let_def)
  from Cons.prems(1) have all: "list_all (\<lambda>c. shape (fst c) = [2] \<and> length (fst (snd c)) = 1) comps"
    by simp
  note IH = Cons.IH [OF all run]
  have f: "next_id d1 = Suc (next_id d)" "nodes d1 ''state'' = Some (?old @ [?n])"
    "\<And>key. key \<noteq> ''state'' \<Longrightarrow> nodes d1 key = nodes d key"
    by (simp_all add: d1_def)
  have st: "nodes d' ''state'' = Some (?old @ ?n # map chain_node (enumerate (Suc (next_id d)) comps))"
  proof (cases "comps = []")
    case True
    with IH f show ?thesis by simp
  next
    case False
    with IH f show ?thesis by simp
  qed
  from IH f st show ?case by (simp add: c chain_node_def)
qed





lemma same_settings_refl [simp]: "same_settings d d"
  by (simp add: same_settings_def)











subsection \<open>The lines of the wires\<close>

lemma find_app:
  "find P (xs @ ys) = (case find P xs of None \<Rightarrow> find P ys | Some x \<Rightarrow> Some x)"
  by (induction xs) simp_all

lemma find_Some_set: "find P xs = Some x \<Longrightarrow> x \<in> set xs \<and> P x"
  by (induction xs) (auto split: if_splits)

lemma next_edge_None: "(next_edge ns cs e = None) = (\<forall>c \<in> set cs. snd c \<noteq> e)"
proof (cases "find (\<lambda>c. snd c = e) cs")
  case None
  moreover from None have "\<forall>c \<in> set cs. snd c \<noteq> e" by (auto simp: find_None_iff)
  ultimately show ?thesis by (simp add: next_edge_def)
next
  case (Some c)
  from find_Some_set [OF this] Some show ?thesis by (auto simp: next_edge_def)
qed

lemma wire_end_stable: "next_edge ns cs e = None \<Longrightarrow> wire_end k ns cs e = e"
  by (cases k) simp_all

lemma next_edge_append:
  "next_edge ns (cs @ [c]) e =
     (case next_edge ns cs e of
        Some e' \<Rightarrow> Some e'
      | None \<Rightarrow> if snd c = e
                then Some (Edge (edge_node (fst c))
                                (edge_axis (fst c) - node_rank ns (edge_node (fst c)) div 2))
                else None)"
  by (auto simp: next_edge_def find_app split: option.splits)

text \<open>One more connection, made at the end \<open>ew\<close> of a line, lets that line go on.\<close>

lemma wire_end_extend:
  assumes ew: "next_edge ns cs ew = None"
    and out: "out = Edge (edge_node a) (edge_axis a - node_rank ns (edge_node a) div 2)"
    and fin: "next_edge ns (cs @ [(a, ew)]) out = None"
    and t: "next_edge ns cs (wire_end m ns cs e) = None"
  shows "wire_end (Suc m) ns (cs @ [(a, ew)]) e
           = (if wire_end m ns cs e = ew then out else wire_end m ns cs e)"
  using t
proof (induction m arbitrary: e)
  case 0
  then show ?case using ew out fin by (simp add: next_edge_append)
next
  case (Suc m)
  show ?case
  proof (cases "next_edge ns cs e")
    case None
    then have w: "wire_end (Suc m) ns cs e = e" by simp
    show ?thesis
    proof (cases "e = ew")
      case True
      have "wire_end (Suc m) ns (cs @ [(a, ew)]) out = out"
        using fin by (rule wire_end_stable)
      with True None w out show ?thesis by (simp add: next_edge_append)
    next
      case False
      with None w show ?thesis by (simp add: next_edge_append)
    qed
  next
    case (Some e1)
    with Suc.prems have "next_edge ns cs (wire_end m ns cs e1) = None" by simp
    from Suc.IH [OF this] Some show ?thesis by (simp add: next_edge_append)
  qed
qed

lemma node_rank_append:
  "node_rank (ns @ [n]) g = (if node_id n = g then ndim (node_tensor n) else node_rank ns g)"
  by (simp add: node_rank_def)

lemma next_edge_registry:
  assumes "\<forall>c \<in> set cs. edge_node (fst c) \<noteq> node_id n"
  shows "next_edge (ns @ [n]) cs e = next_edge ns cs e"
proof (cases "find (\<lambda>c. snd c = e) cs")
  case None
  then show ?thesis by (simp add: next_edge_def)
next
  case (Some c)
  then have "c \<in> set cs" by (auto dest: find_Some_set)
  with assms have "edge_node (fst c) \<noteq> node_id n" by blast
  with Some show ?thesis by (auto simp: next_edge_def node_rank_append)
qed

lemma wire_end_registry:
  assumes "\<forall>c \<in> set cs. edge_node (fst c) \<noteq> node_id n"
  shows "wire_end k (ns @ [n]) cs e = wire_end k ns cs e"
  by (induction k arbitrary: e)
     (simp_all add: next_edge_registry [OF assms] split: option.splits)

subsection \<open>A gate on the lines of the wires\<close>

lemma gate_loop_inv_step:
  assumes inv: "gate_loop_inv k num i d" and idx: "i < num"
    and jl: "j < length (free_wire_edges d)"
  shows "gate_loop_inv k num (Suc i)
           (d\<lparr>connections := connections d @ [(Edge k (num + i), free_wire_edges d ! j)],
              free_wire_edges := (free_wire_edges d)[j := Edge k i]\<rparr>)"
    and "dangling (connections d) (free_wire_edges d ! j)"
    and "Edge k i \<notin> set (free_wire_edges d)"
    and "\<forall>c \<in> set (connections d). snd c \<noteq> Edge k i"
    and "distinct (free_wire_edges d)"
proof -
  let ?f = "free_wire_edges d"
  define d2 where "d2 = d\<lparr>connections := connections d @ [(Edge k (num + i), ?f ! j)],
                          free_wire_edges := ?f[j := Edge k i]\<rparr>"
  note inv' = inv [unfolded gate_loop_inv_def list_all_iff]
  show dist: "distinct ?f" using inv' by simp
  have fr: "\<forall>e \<in> set ?f. dangling (connections d) e \<and> (edge_node e < k \<or> (edge_node e = k \<and> edge_axis e < i))"
    using inv' by simp
  have cs: "\<forall>c \<in> set (connections d). \<forall>e \<in> {fst c, snd c}. edge_node e < k
              \<or> (edge_node e = k \<and> (edge_axis e < i \<or> (num \<le> edge_axis e \<and> edge_axis e < num + i)))"
    using inv' by simp
  have fj: "?f ! j \<in> set ?f" using jl by simp
  with fr show "dangling (connections d) (?f ! j)" by blast
  show new_not_in: "Edge k i \<notin> set ?f" using fr by auto
  show tgt: "\<forall>c \<in> set (connections d). snd c \<noteq> Edge k i"
    using cs idx by fastforce
  have new_dangling: "dangling (connections d) (Edge k i)"
    using cs idx by (fastforce simp: dangling_def)
  have A: "distinct (free_wire_edges d2)"
    using dist new_not_in jl by (simp add: d2_def distinct_list_update)
  have B: "dangling (connections d2) e
           \<and> (edge_node e < k \<or> edge_node e = k \<and> edge_axis e < Suc i)"
    if e: "e \<in> set (free_wire_edges d2)" for e
  proof -
    from e have "e = Edge k i \<or> (e \<in> set ?f \<and> e \<noteq> ?f ! j)"
      using dist jl by (auto simp: d2_def set_update_distinct)
    then show ?thesis
    proof
      assume "e = Edge k i"
      then show ?thesis using new_dangling new_not_in fj idx
        by (auto simp: d2_def dangling_def)
    next
      assume a: "e \<in> set ?f \<and> e \<noteq> ?f ! j"
      then have "dangling (connections d) e" "edge_node e < k \<or> (edge_node e = k \<and> edge_axis e < i)"
        using fr by auto
      moreover have "e \<noteq> Edge k (num + i)" using calculation(2) by auto
      ultimately show ?thesis using a by (auto simp: d2_def dangling_def)
    qed
  qed
  have C: "edge_node e < k \<or> edge_node e = k
                 \<and> (edge_axis e < Suc i \<or> num \<le> edge_axis e \<and> edge_axis e < num + Suc i)"
    if c: "c \<in> set (connections d2)" and e: "e \<in> set [fst c, snd c]" for c e
  proof -
    from c have "c \<in> set (connections d) \<or> c = (Edge k (num + i), ?f ! j)"
      by (auto simp: d2_def)
    then show ?thesis
    proof
      assume "c \<in> set (connections d)"
      with cs e show ?thesis by fastforce
    next
      assume "c = (Edge k (num + i), ?f ! j)"
      with e fr fj show ?thesis by fastforce
    qed
  qed
  show "gate_loop_inv k num (Suc i)
           (d\<lparr>connections := connections d @ [(Edge k (num + i), free_wire_edges d ! j)],
              free_wire_edges := (free_wire_edges d)[j := Edge k i]\<rparr>)"
    unfolding gate_loop_inv_def list_all_iff d2_def [symmetric] using A B C by blast
qed

text \<open>The loop of a gate keeps every line: the lines of its wires go on through the gate.\<close>

lemma connect_gate_lines:
  assumes "connect_gate op_node num (enumerate i rest) d = (Inr u, d')"
    and "i + length rest = num"
    and "ndim (node_tensor op_node) = 2 * num"
    and "gate_loop_inv (node_id op_node) num i d"
    and "node_rank ns (node_id op_node) = 2 * num"
    and "map (wire_end (length (connections d)) ns (connections d)) src = free_wire_edges d"
  shows "map (wire_end (length (connections d')) ns (connections d')) src = free_wire_edges d'"
  using assms
proof (induction rest arbitrary: i d)
  case Nil
  then show ?case by simp
next
  case (Cons w rest)
  let ?k = "node_id op_node"
  let ?f = "free_wire_edges d"
  let ?cs = "connections d"
  have idx: "i < num" using Cons.prems(2) by simp
  from Cons.prems(1) have run: "connect_gate op_node num ((i, w) # enumerate (Suc i) rest) d = (Inr u, d')"
    by simp
  from connect_gate_step [OF run Cons.prems(3) idx] obtain j where
    j: "py_pos (length ?f) w = Some j"
    and rest: "connect_gate op_node num (enumerate (Suc i) rest)
                (d\<lparr>connections := ?cs @ [(Edge ?k (num + i), ?f ! j)],
                   free_wire_edges := ?f[j := Edge ?k i]\<rparr>) = (Inr u, d')"
    by blast
  let ?c = "(Edge ?k (num + i), ?f ! j)"
  let ?d2 = "d\<lparr>connections := ?cs @ [?c], free_wire_edges := ?f[j := Edge ?k i]\<rparr>"
  have jl: "j < length ?f" using j by (rule py_pos_less)
  note S = gate_loop_inv_step [OF Cons.prems(4) idx jl]
  have len: "length src = length ?f" using Cons.prems(6) by (metis length_map)
  have dang: "\<And>p. p < length ?f \<Longrightarrow> next_edge ns ?cs (?f ! p) = None"
  proof -
    fix p assume "p < length ?f"
    then have "dangling ?cs (?f ! p)"
      using Cons.prems(4) by (simp add: gate_loop_inv_def list_all_length)
    then show "next_edge ns ?cs (?f ! p) = None"
      by (force simp: next_edge_None dangling_def image_iff)
  qed
  have out: "Edge ?k i = Edge (edge_node (Edge ?k (num + i)))
                           (edge_axis (Edge ?k (num + i))
                            - node_rank ns (edge_node (Edge ?k (num + i))) div 2)"
    using Cons.prems(5) by simp
  have "?f ! j \<in> set ?f" using jl by simp
  with S(3) have "?f ! j \<noteq> Edge ?k i" by metis
  with S(4) have fin: "next_edge ns (?cs @ [?c]) (Edge ?k i) = None"
    by (auto simp: next_edge_None)
  have lines2: "map (wire_end (length (connections ?d2)) ns (connections ?d2)) src
                  = free_wire_edges ?d2"
  proof (rule nth_equalityI)
    show "length (map (wire_end (length (connections ?d2)) ns (connections ?d2)) src)
            = length (free_wire_edges ?d2)" using len by simp
  next
    fix p assume "p < length (map (wire_end (length (connections ?d2)) ns (connections ?d2)) src)"
    then have p: "p < length ?f" using len by simp
    have tp: "wire_end (length ?cs) ns ?cs (src ! p) = ?f ! p"
      using Cons.prems(6) p len by (metis nth_map)
    have t: "next_edge ns ?cs (wire_end (length ?cs) ns ?cs (src ! p)) = None"
      unfolding tp using p by (rule dang)
    from wire_end_extend [OF dang [OF jl] out fin t]
    have "wire_end (Suc (length ?cs)) ns (?cs @ [?c]) (src ! p)
            = (if ?f ! p = ?f ! j then Edge ?k i else ?f ! p)"
      by (simp only: tp)
    also have "\<dots> = (?f[j := Edge ?k i]) ! p"
      using S(5) p jl by (auto simp: nth_list_update nth_eq_iff_index_eq)
    finally show "map (wire_end (length (connections ?d2)) ns (connections ?d2)) src ! p
                    = free_wire_edges ?d2 ! p"
      using p len by simp
  qed
  have p2: "Suc i + length rest = num" using Cons.prems(2) by simp
  from Cons.IH [OF rest p2 Cons.prems(3) S(1) Cons.prems(5) lines2] show ?case .
qed

text \<open>
  The entries of the wires of a gate are output edges of the gate's node afterwards, and
  the edges that were there are connected.
\<close>

lemma connect_gate_replaced:
  assumes "connect_gate op_node num (enumerate i rest) d = (Inr u, d')"
    and "i + length rest = num"
    and "ndim (node_tensor op_node) = 2 * num"
    and "gate_loop_inv (node_id op_node) num i d"
  shows "set (connections d) \<subseteq> set (connections d')
         \<and> (\<forall>j < length (free_wire_edges d).
               (\<exists>w \<in> set rest. py_pos (length (free_wire_edges d)) w = Some j) \<longrightarrow>
               edge_node (free_wire_edges d' ! j) = node_id op_node
               \<and> edge_axis (free_wire_edges d' ! j) < num
               \<and> \<not> dangling (connections d') (free_wire_edges d ! j))"
  using assms
proof (induction rest arbitrary: i d)
  case Nil
  then show ?case by simp
next
  case (Cons w rest)
  let ?k = "node_id op_node"
  let ?f = "free_wire_edges d"
  let ?cs = "connections d"
  have idx: "i < num" using Cons.prems(2) by simp
  from Cons.prems(1) have run: "connect_gate op_node num ((i, w) # enumerate (Suc i) rest) d = (Inr u, d')"
    by simp
  from connect_gate_step [OF run Cons.prems(3) idx] obtain j0 where
    j0: "py_pos (length ?f) w = Some j0"
    and rest: "connect_gate op_node num (enumerate (Suc i) rest)
                (d\<lparr>connections := ?cs @ [(Edge ?k (num + i), ?f ! j0)],
                   free_wire_edges := ?f[j0 := Edge ?k i]\<rparr>) = (Inr u, d')"
    by blast
  let ?d2 = "d\<lparr>connections := ?cs @ [(Edge ?k (num + i), ?f ! j0)],
                free_wire_edges := ?f[j0 := Edge ?k i]\<rparr>"
  have jl: "j0 < length ?f" using j0 by (rule py_pos_less)
  note S = gate_loop_inv_step [OF Cons.prems(4) idx jl]
  have p2: "Suc i + length rest = num" using Cons.prems(2) by simp
  from Cons.IH [OF rest p2 Cons.prems(3) S(1)]
  have mono: "set (connections ?d2) \<subseteq> set (connections d')"
    and IH: "\<forall>j < length ?f.
               (\<exists>w \<in> set rest. py_pos (length ?f) w = Some j) \<longrightarrow>
               edge_node (free_wire_edges d' ! j) = ?k
               \<and> edge_axis (free_wire_edges d' ! j) < num
               \<and> \<not> dangling (connections d') ((?f[j0 := Edge ?k i]) ! j)"
    by simp_all
  from connect_gate_ok [OF rest p2 Cons.prems(3) S(1)]
  have keep: "\<forall>j < length ?f. (\<forall>w \<in> set rest. py_pos (length ?f) w \<noteq> Some j) \<longrightarrow>
                free_wire_edges d' ! j = (?f[j0 := Edge ?k i]) ! j"
    by simp
  have used: "\<not> dangling (connections d') (?f ! j0)"
    using mono by (auto simp: dangling_def image_iff) (metis snd_conv)
  have "edge_node (free_wire_edges d' ! j) = ?k \<and> edge_axis (free_wire_edges d' ! j) < num
        \<and> \<not> dangling (connections d') (?f ! j)"
    if jj: "j < length ?f" and touched: "\<exists>w' \<in> set (w # rest). py_pos (length ?f) w' = Some j"
    for j
  proof (cases "\<exists>w' \<in> set rest. py_pos (length ?f) w' = Some j")
    case True
    with IH jj have a: "edge_node (free_wire_edges d' ! j) = ?k"
      "edge_axis (free_wire_edges d' ! j) < num"
      "\<not> dangling (connections d') ((?f[j0 := Edge ?k i]) ! j)" by simp_all
    show ?thesis
    proof (cases "j = j0")
      case True
      with a used show ?thesis by simp
    next
      case False
      with a show ?thesis by simp
    qed
  next
    case False
    with touched j0 have e: "j = j0" by auto
    from keep jj False have "free_wire_edges d' ! j = (?f[j0 := Edge ?k i]) ! j" by simp
    with e jl idx used show ?thesis by simp
  qed
  moreover have "set ?cs \<subseteq> set (connections d')" using mono by auto
  ultimately show ?case by blast
qed

lemma state_nodes_add_node:
  "add_node (Inl t) ws name ''state'' d = (n, d1) \<Longrightarrow> state_nodes d1 = state_nodes d @ [n]"
  by (auto simp: add_node_Inl state_nodes_def)

text \<open>A gate that succeeds in the exact representation keeps the lines of the wires.\<close>

lemma add_gate_exact_lines:
  assumes an: "add_node (Inl A) ws name ''state'' d = (op_node, d1)"
    and nd: "ndim A = 2 * length ws"
    and run: "connect_gate op_node (length ws) (enumerate 0 ws) d1 = (Inr u, d')"
    and T: "one_entry_per_wire d" and N: "numbered d"
    and L: "wire_ends d = free_wire_edges d"
  shows "wire_ends d' = free_wire_edges d'"
    and "\<forall>j < num_wires d. (\<exists>w \<in> set ws. py_pos (num_wires d) w = Some j) \<longrightarrow>
           edge_node (free_wire_edges d' ! j) = next_id d
           \<and> edge_axis (free_wire_edges d' ! j) < length ws
           \<and> \<not> dangling (connections d') (free_wire_edges d ! j)"
proof -
  let ?ns = "state_nodes d"
  let ?all = "concat (map edges ?ns)"
  let ?src = "take (num_wires d) ?all"
  from an have d1: "d1 = d\<lparr>next_id := Suc (next_id d),
        nodes := (nodes d)(''state'' \<mapsto> (case nodes d ''state'' of None \<Rightarrow> [] | Some ns \<Rightarrow> ns) @ [op_node])\<rparr>"
    and op_node: "node_id op_node = next_id d" "node_tensor op_node = A"
    by (auto simp: add_node_Inl)
  have len: "length (free_wire_edges d) = num_wires d"
    using T by (simp add: one_entry_per_wire_def)
  have "length (wire_ends d) = min (length ?all) (num_wires d)"
    by (simp add: wire_ends_def)
  with L len have enough: "num_wires d \<le> length ?all" by simp
  have sn: "state_nodes d1 = ?ns @ [op_node]" using an by (rule state_nodes_add_node)
  have src1: "take (num_wires d) (concat (map edges (state_nodes d1))) = ?src"
    using enough by (simp add: sn)
  have cb: "\<forall>c \<in> set (connections d). edge_node (fst c) \<noteq> node_id op_node"
    using N by (auto simp: numbered_def list_all_iff op_node)
  have lines1: "map (wire_end (length (connections d1)) (?ns @ [op_node]) (connections d1)) ?src
                  = free_wire_edges d1"
  proof -
    have "wire_end (length (connections d)) (?ns @ [op_node]) (connections d)
            = wire_end (length (connections d)) ?ns (connections d)"
      by (rule ext) (rule wire_end_registry [OF cb])
    with L show ?thesis by (simp add: d1 wire_ends_def)
  qed
  have rk: "node_rank (?ns @ [op_node]) (node_id op_node) = 2 * length ws"
    using nd by (simp add: node_rank_append op_node)
  have T1: "one_entry_per_wire d1" using T by (simp add: d1 one_entry_per_wire_def)
  have N0: "numbered (d1\<lparr>next_id := node_id op_node\<rparr>)"
    using N by (simp add: d1 op_node numbered_def)
  have inv0: "gate_loop_inv (node_id op_node) (length ws) 0 d1"
    using T1 N0 by (auto simp: gate_loop_inv_def one_entry_per_wire_def numbered_def list_all_iff)
  have nd': "ndim (node_tensor op_node) = 2 * length ws" using nd op_node by simp
  have z: "0 + length ws = length ws" by simp
  from connect_gate_lines [OF run z nd' inv0 rk lines1]
  have lines': "map (wire_end (length (connections d')) (?ns @ [op_node]) (connections d')) ?src
                  = free_wire_edges d'" .
  from connect_gate_ok [OF run z nd' inv0]
  have same: "nodes d' = nodes d1" "num_wires d' = num_wires d1" by simp_all
  then have "state_nodes d' = ?ns @ [op_node]" using sn by (simp add: state_nodes_def)
  moreover have "num_wires d' = num_wires d" using same by (simp add: d1)
  ultimately show "wire_ends d' = free_wire_edges d'"
    using lines' src1 sn by (simp add: wire_ends_def)
  from connect_gate_replaced [OF run z nd' inv0]
  show "\<forall>j < num_wires d. (\<exists>w \<in> set ws. py_pos (num_wires d) w = Some j) \<longrightarrow>
           edge_node (free_wire_edges d' ! j) = next_id d
           \<and> edge_axis (free_wire_edges d' ! j) < length ws
           \<and> \<not> dangling (connections d') (free_wire_edges d ! j)"
    using len by (simp add: d1 op_node)
qed

text \<open>A gate that succeeds on a chain keeps the table in step with the sites.\<close>

lemma physical_edges_Some:
  "physical_edges d = Some es \<Longrightarrow>
   \<exists>ms. mps d = Some ms \<and> map (\<lambda>n. node_edge n 1) ms = map Some es"
  by (auto simp: physical_edges_def those_eq_Some split: option.splits)

lemma add_gate_mps_chain:
  assumes run: "add_gate_mps op_node ws d = (Inr u, d')"
    and P: "physical_edges d = Some (free_wire_edges d)"
  shows "physical_edges d' = Some (free_wire_edges d')"
    and "\<forall>j < length (free_wire_edges d).
           (\<exists>w \<in> set ws. py_pos (length (free_wire_edges d)) w = Some j) \<longrightarrow>
           next_id d \<le> edge_node (free_wire_edges d' ! j)"
proof -
  let ?f = "free_wire_edges d"
  let ?k = "next_id d"
  let ?g = "\<lambda>n. node_edge n 1"
  from physical_edges_Some [OF P] obtain ms where ms: "mps d = Some ms"
    and tie: "map ?g ms = map Some ?f" by blast
  then have lm: "length ms = length ?f" by (metis length_map)
  have new_edge: "node_edge n 1 = Some (Edge (node_id n) 1)" if "2 \<le> ndim (node_tensor n)" for n
    using that by (simp add: node_edge_def py_pos_def)
  have pos: "py_pos (length ?f) w = Some (nat w)" if "0 \<le> w" "w < int (length ms)" for w
    using that lm by (simp add: py_pos_def)
  have get: "py_get xs w = Some (xs ! nat w)" if "0 \<le> w" "w < int (length xs)" for w :: int
    and xs :: "node list"
    using that by (simp add: py_get_def py_pos_def)
  consider (one) "length ws = 1" | (two) "length ws = 2" "\<bar>ws ! 1 - ws ! 0\<bar> = 1"
    using run by (auto simp: add_gate_mps_def split: if_splits)
  then have "physical_edges d' = Some (free_wire_edges d')
      \<and> (\<forall>j < length ?f. (\<exists>w \<in> set ws. py_pos (length ?f) w = Some j) \<longrightarrow>
             ?k \<le> edge_node (free_wire_edges d' ! j))"
  proof cases
    case one
    then obtain w where ws: "ws = [w]" by (cases ws) auto
    from run ms ws obtain ms' d1 where
      g: "mps_apply_one_site_gate op_node w ms d = (Inr ms', d1)"
      and r: "refresh_free_wire_edges [w] (d1\<lparr>mps := Some ms'\<rparr>) = (Inr u, d')"
      by (auto simp: add_gate_mps_def split: prod.splits sum.splits)
    from g obtain new where site: "0 \<le> w" "w < int (length ms)"
      and d1: "d1 = d\<lparr>next_id := Suc ?k\<rparr>"
      and ms': "ms' = ms[nat w := new]" and idn: "node_id new = ?k"
      by (auto simp: mps_apply_one_site_gate_def tn_Node_def Let_def split: if_splits)
    from refresh_step [OF r] obtain n j where
      n: "py_get ms' w = Some n" and nd: "2 \<le> ndim (node_tensor n)"
      and j: "py_pos (length ?f) w = Some j"
      and d': "d' = d1\<lparr>mps := Some ms', free_wire_edges := ?f[j := Edge (node_id n) 1]\<rparr>"
      by (auto simp: d1)
    have jw: "j = nat w" using j pos [OF site] by simp
    have nn: "n = new" using n site get [of w ms'] by (simp add: ms')
    have "map ?g ms' = (map ?g ms)[nat w := ?g new]" by (simp add: ms' map_update)
    also have "\<dots> = map Some (?f[nat w := Edge ?k 1])"
      using new_edge [OF nd] nn idn by (simp add: tie map_update)
    finally have "physical_edges d' = Some (free_wire_edges d')"
      using nn idn jw by (simp add: physical_edges_def d' d1)
    moreover have "\<forall>j' < length ?f. (\<exists>w' \<in> set ws. py_pos (length ?f) w' = Some j') \<longrightarrow>
             ?k \<le> edge_node (free_wire_edges d' ! j')"
      using j nn idn by (auto simp: ws d' d1)
    ultimately show ?thesis by simp
  next
    case two
    then obtain w0 w1 where ws: "ws = [w0, w1]"
      by (cases ws; cases "tl ws") auto
    from run ms ws two obtain ms' d1 where
      g: "mps_apply_two_site_gate op_node w0 w1 ms d = (Inr ms', d1)"
      and r: "refresh_free_wire_edges [w0, w1] (d1\<lparr>mps := Some ms'\<rparr>) = (Inr u, d')"
      by (auto simp: add_gate_mps_def split: prod.splits sum.splits)
    from g obtain l rr where site: "0 \<le> w0" "w1 = w0 + 1" "w1 < int (length ms)"
      and d1: "d1 = d\<lparr>next_id := Suc (Suc ?k)\<rparr>"
      and ms': "ms' = ms[nat w0 := l, nat w1 := rr]"
      and ids: "node_id l = ?k" "node_id rr = Suc ?k"
      by (auto simp: mps_apply_two_site_gate_def tn_Node_def Let_def split: if_splits)
    from refresh_step [OF r] obtain n0 j0 where
      n0: "py_get ms' w0 = Some n0" and nd0: "2 \<le> ndim (node_tensor n0)"
      and j0: "py_pos (length ?f) w0 = Some j0"
      and r1: "refresh_free_wire_edges [w1]
                 (d1\<lparr>mps := Some ms', free_wire_edges := ?f[j0 := Edge (node_id n0) 1]\<rparr>) = (Inr u, d')"
      by (auto simp: d1)
    from refresh_step [OF r1] obtain n1 j1 where
      n1: "py_get ms' w1 = Some n1" and nd1: "2 \<le> ndim (node_tensor n1)"
      and j1: "py_pos (length ?f) w1 = Some j1"
      and d': "d' = d1\<lparr>mps := Some ms',
                        free_wire_edges := ?f[j0 := Edge (node_id n0) 1, j1 := Edge (node_id n1) 1]\<rparr>"
      by (auto simp: d1)
    have s0: "0 \<le> w0" "w0 < int (length ms)" and s1: "0 \<le> w1" "w1 < int (length ms)"
      using site by simp_all
    have jw: "j0 = nat w0" "j1 = nat w1" using j0 j1 pos [OF s0] pos [OF s1] by simp_all
    have ne: "nat w0 \<noteq> nat w1" using site by simp
    have nn: "n0 = l" "n1 = rr"
      using n0 n1 s0 s1 ne get [of w0 ms'] get [of w1 ms'] by (simp_all add: ms')
    have "map ?g ms' = (map ?g ms)[nat w0 := ?g l, nat w1 := ?g rr]"
      by (simp add: ms' map_update)
    also have "\<dots> = map Some (?f[nat w0 := Edge ?k 1, nat w1 := Edge (Suc ?k) 1])"
      using new_edge [OF nd0] new_edge [OF nd1] nn ids by (simp add: tie map_update)
    finally have "physical_edges d' = Some (free_wire_edges d')"
      using nn ids jw by (simp add: physical_edges_def d' d1)
    moreover have "\<forall>j' < length ?f. (\<exists>w' \<in> set ws. py_pos (length ?f) w' = Some j') \<longrightarrow>
             ?k \<le> edge_node (free_wire_edges d' ! j')"
      using j0 j1 nn ids ne jw by (auto simp: ws d' d1 nth_list_update)
    ultimately show ?thesis by simp
  qed
  then show "physical_edges d' = Some (free_wire_edges d')"
    and "\<forall>j < length (free_wire_edges d).
           (\<exists>w \<in> set ws. py_pos (length (free_wire_edges d)) w = Some j) \<longrightarrow>
           next_id d \<le> edge_node (free_wire_edges d' ! j)"
    by simp_all
qed

subsection \<open>The table after a preparation\<close>

lemma wire_ends_fresh:
  assumes "connections d = []" "free_wire_edges d = concat (map edges (state_nodes d))"
    and "length (free_wire_edges d) = num_wires d"
  shows "wire_ends d = free_wire_edges d"
proof -
  have "map (wire_end 0 (state_nodes d) []) xs = xs" for xs
    by (induction xs) simp_all
  with assms show ?thesis by (simp add: wire_ends_def)
qed

lemma state_nodes_run:
  assumes "add_exact_components comps c = (Inr u, d')"
  shows "state_nodes d' = state_nodes c @ map component_node (enumerate (next_id c) comps)"
proof (cases "comps = []")
  case True
  with add_exact_components_run [OF assms] show ?thesis by (simp add: state_nodes_def)
next
  case False
  with add_exact_components_run [OF assms] show ?thesis by (simp add: state_nodes_def)
qed

lemma add_initial_state_nodes_tie:
  assumes run: "add_initial_state_nodes tensors wires names (clear_network_data d) = (Inr u, d')"
    and rp: "rep d = ''exact'' \<or> rep d = ''mps''"
    and sum: "sum_list (map length wires) = num_wires d"
  shows "wire_edge_table_ok d' \<and> numbered d'"
proof -
  let ?c = "clear_network_data d"
  have rpc: "rep ?c = ''exact'' \<or> rep ?c = ''mps''" using rp by simp
  from add_initial_state_nodes_table [OF run rpc] sum
  have T: "one_entry_per_wire d'" and N: "numbered d'" and r': "rep d' = rep d"
    and len: "length (free_wire_edges d') = num_wires d'"
    by (simp_all add: one_entry_per_wire_def)
  from run have ls: "length tensors = length wires" "length wires = length names"
    by (auto simp: add_initial_state_nodes_def split: if_splits)
  let ?comps = "zip tensors (zip wires names)"
  show ?thesis
  proof (cases "rep d = ''exact''")
    case True
    let ?c' = "?c\<lparr>free_wire_edges := []\<rparr>"
    from run True ls have r: "add_exact_components ?comps ?c' = (Inr u, d')"
      by (simp add: add_initial_state_nodes_def)
    note R = add_exact_components_run [OF r]
    note F = add_exact_components_frame [OF r]
    have sn: "state_nodes d' = map component_node (enumerate 0 ?comps)"
      using state_nodes_run [OF r] by (simp add: state_nodes_def)
    have tb: "free_wire_edges d' = concat (map edges (state_nodes d'))"
      using R by (simp add: sn comp_def)
    have cn: "connections d' = []" using F by simp
    from wire_ends_fresh [OF cn tb len] T N True r' show ?thesis
      by (simp add: wire_edge_table_ok_def)
  next
    case False
    with rp have m: "rep d = ''mps''" by simp
    have ex: "rep ?c \<noteq> ''exact''" "rep ?c = ''mps''" using m by simp_all
    from run ex ls obtain ns d1 es where
      "those (map (\<lambda>n. node_edge n 1) ns) = Some es"
      "d' = d1\<lparr>mps := Some ns, free_wire_edges := es\<rparr>"
      by (auto simp: add_initial_state_nodes_def split: prod.splits sum.splits option.splits)
    then have "physical_edges d' = Some (free_wire_edges d')"
      by (simp add: physical_edges_def)
    with T N m r' show ?thesis by (simp add: wire_edge_table_ok_def)
  qed
qed

lemma reset_tie:
  assumes "reset d = (Inr u, d')" and "rep d = ''exact'' \<or> rep d = ''mps''"
  shows "wire_edge_table_ok d' \<and> numbered d'"
  using add_initial_state_nodes_tie [OF assms(1) [unfolded reset_def] assms(2)] by simp

lemma state_prep_tie:
  assumes "operation \<in> set [''QubitStateVector'', ''BasisState'']"
    and "rep d = ''exact'' \<or> rep d = ''mps''"
    and "dev_apply operation wires par d = (Inr (), d')"
  shows "wire_edge_table_ok d' \<and> numbered d'"
proof -
  from assms(1,3) have "add_state_prep_nodes operation par (clear_network_data d) = (Inr (), d')"
    by (auto simp: dev_apply_def split: if_splits)
  then obtain ts ws ns where
    r: "add_initial_state_nodes ts ws ns (clear_network_data d) = (Inr (), d')"
    and s: "sum_list (map length ws) = num_wires d"
    by (auto simp: add_state_prep_nodes_def Let_def
             split: if_splits list.splits sum.splits option.splits param.splits)
  from add_initial_state_nodes_tie [OF r assms(2) s] show ?thesis .
qed

lemma init_tie:
  assumes "init ops n k r m = Inr d"
  shows "wire_edge_table_ok d \<and> numbered d"
proof -
  from assms have rp: "r = ''exact'' \<or> r = ''mps''" by (auto simp: init_def split: if_splits)
  from assms obtain d0 where r: "reset d0 = (Inr (), d)" and "rep d0 = r"
    by (auto simp: init_def split: prod.splits sum.splits if_splits)
  with rp reset_tie [OF r] show ?thesis by simp
qed

text \<open>After a reset entry \<open>i\<close> of the table is the edge of the node made for wire \<open>i\<close>.\<close>

lemma reset_explicit:
  assumes run: "reset d = (Inr u, d')"
  shows "rep d = ''exact'' \<longrightarrow>
           state_nodes d' = map (\<lambda>i. Node i (''ZeroState'' @ tuple_repr [int i]) zero_state)
                                [0..<num_wires d]
           \<and> free_wire_edges d' = map (\<lambda>i. Edge i 0) [0..<num_wires d]"
    and "rep d = ''mps'' \<longrightarrow>
           mps d' = Some (map (\<lambda>i. Node i (''ZeroState'' @ tuple_repr [int i])
                                      (Arr [1, 2, 1] [1, 0]))
                              [0..<num_wires d])
           \<and> free_wire_edges d' = map (\<lambda>i. Edge i 1) [0..<num_wires d]"
proof -
  let ?n = "num_wires d"
  let ?c = "clear_network_data d"
  let ?ts = "replicate ?n zero_state"
  let ?ws = "map (\<lambda>w. [w]) (py_range ?n)"
  let ?names = "replicate ?n ''ZeroState''"
  let ?comps = "zip ?ts (zip ?ws ?names)"
  have l3: "length ?ts = ?n" "length ?ws = ?n" "length ?names = ?n" by simp_all
  note E = enumerate_zip3 [OF l3, of _ 0]
  show "rep d = ''exact'' \<longrightarrow>
           state_nodes d' = map (\<lambda>i. Node i (''ZeroState'' @ tuple_repr [int i]) zero_state)
                                [0..<num_wires d]
           \<and> free_wire_edges d' = map (\<lambda>i. Edge i 0) [0..<num_wires d]"
  proof
    assume ex: "rep d = ''exact''"
    let ?c' = "?c\<lparr>free_wire_edges := []\<rparr>"
    from run ex have r: "add_exact_components ?comps ?c' = (Inr u, d')"
      by (simp add: reset_def add_initial_state_nodes_def)
    note R = add_exact_components_run [OF r]
    have sn: "state_nodes d' = map component_node (enumerate 0 ?comps)"
      using state_nodes_run [OF r] by (simp add: state_nodes_def)
    have a: "state_nodes d' = map (\<lambda>i. Node i (''ZeroState'' @ tuple_repr [int i]) zero_state)
                                  [0..<?n]"
      unfolding sn E by (auto simp: component_node_def py_range_def)
    have "free_wire_edges d' = concat (map edges (state_nodes d'))"
      using R by (simp add: sn comp_def)
    also have "\<dots> = map (\<lambda>i. Edge i 0) [0..<?n]"
      unfolding a by (induction ?n) (simp_all add: edges_def comp_def)
    finally show "state_nodes d' = map (\<lambda>i. Node i (''ZeroState'' @ tuple_repr [int i]) zero_state)
                                [0..<num_wires d]
           \<and> free_wire_edges d' = map (\<lambda>i. Edge i 0) [0..<num_wires d]"
      using a by simp
  qed
  show "rep d = ''mps'' \<longrightarrow>
           mps d' = Some (map (\<lambda>i. Node i (''ZeroState'' @ tuple_repr [int i])
                                      (Arr [1, 2, 1] [1, 0]))
                              [0..<num_wires d])
           \<and> free_wire_edges d' = map (\<lambda>i. Edge i 1) [0..<num_wires d]"
  proof
    assume m: "rep d = ''mps''"
    have ex: "rep ?c \<noteq> ''exact''" "rep ?c = ''mps''" using m by simp_all
    from run ex obtain ns d1 es where
      r: "add_mps_components ?comps [] ?c = (Inr ns, d1)"
      and es: "those (map (\<lambda>n. node_edge n 1) ns) = Some es"
      and d': "d' = d1\<lparr>mps := Some ns, free_wire_edges := es\<rparr>"
      by (auto simp: reset_def add_initial_state_nodes_def
               split: prod.splits sum.splits option.splits)
    have all: "list_all (\<lambda>c. shape (fst c) = [2] \<and> length (fst (snd c)) = 1) ?comps"
      by (auto simp: list_all_iff in_set_zip)
    from add_mps_components_run [OF all r]
    have "ns = map chain_node (enumerate 0 ?comps)" by simp
    also have "\<dots> = map (\<lambda>i. Node i (''ZeroState'' @ tuple_repr [int i]) (Arr [1, 2, 1] [1, 0]))
                         [0..<?n]"
      unfolding E
      by (auto simp: chain_node_def py_range_def zero_state_def expand_dims_first_def
                     expand_dims_last_def)
    finally have ns: "ns = map (\<lambda>i. Node i (''ZeroState'' @ tuple_repr [int i])
                                    (Arr [1, 2, 1] [1, 0])) [0..<?n]" .
    have "map (\<lambda>n. node_edge n 1) ns = map Some (map (\<lambda>i. Edge i 1) [0..<?n])"
      unfolding ns by (simp add: node_edge_def ndim_def py_pos_def comp_def)
    with es have "es = map (\<lambda>i. Edge i 1) [0..<?n]" by (simp only: those_map_Some) simp
    with ns d' show "mps d' = Some (map (\<lambda>i. Node i (''ZeroState'' @ tuple_repr [int i])
                                      (Arr [1, 2, 1] [1, 0]))
                              [0..<num_wires d])
           \<and> free_wire_edges d' = map (\<lambda>i. Edge i 1) [0..<num_wires d]"
      by simp
  qed
qed

subsection \<open>The table after a gate\<close>

lemma gate_table_strong:
  assumes op: "operation \<notin> set [''QubitStateVector'', ''BasisState'']"
    and rp: "rep d = ''exact'' \<or> rep d = ''mps''"
    and T: "wire_edge_table_ok d" and N: "numbered d"
    and run: "dev_apply operation (Some ws) par d = (Inr (), d')"
  shows "wire_edge_table_ok d' \<and> numbered d'"
    and "\<forall>j < num_wires d. (\<forall>w \<in> set ws. py_pos (num_wires d) w \<noteq> Some j) \<longrightarrow>
           free_wire_edges d' ! j = free_wire_edges d ! j"
    and "\<forall>j < num_wires d. (\<exists>w \<in> set ws. py_pos (num_wires d) w = Some j) \<longrightarrow>
           next_id d \<le> edge_node (free_wire_edges d' ! j)
           \<and> free_wire_edges d' ! j \<notin> set (free_wire_edges d)"
    and "rep d = ''exact'' \<longrightarrow>
           (\<forall>j < num_wires d. (\<exists>w \<in> set ws. py_pos (num_wires d) w = Some j) \<longrightarrow>
              edge_node (free_wire_edges d' ! j) = next_id d
              \<and> edge_axis (free_wire_edges d' ! j) < length ws
              \<and> \<not> dangling (connections d') (free_wire_edges d ! j))"
proof -
  from T have T1: "one_entry_per_wire d" by (simp add: wire_edge_table_ok_def)
  then have len: "length (free_wire_edges d) = num_wires d" by (simp add: one_entry_per_wire_def)
  note G = gate_table [OF op T1 N run]
  from G show "\<forall>j < num_wires d. (\<forall>w \<in> set ws. py_pos (num_wires d) w \<noteq> Some j) \<longrightarrow>
           free_wire_edges d' ! j = free_wire_edges d ! j" by simp
  from op run have g: "add_gate_nodes operation (Some ws) par d = (Inr (), d')"
    by (auto simp: dev_apply_def split: if_splits)
  from add_gate_nodes_frame [OF g] have r': "rep d' = rep d" by (simp add: same_configuration_def)
  have old: "\<And>e. e \<in> set (free_wire_edges d) \<Longrightarrow> edge_node e < next_id d"
    using N by (simp add: numbered_def list_all_iff)
  from g have R: "(if rep d = ''mps'' then physical_edges d' = Some (free_wire_edges d')
                   else wire_ends d' = free_wire_edges d')
      \<and> (\<forall>j < num_wires d. (\<exists>w \<in> set ws. py_pos (num_wires d) w = Some j) \<longrightarrow>
             next_id d \<le> edge_node (free_wire_edges d' ! j))
      \<and> (rep d = ''exact'' \<longrightarrow>
           (\<forall>j < num_wires d. (\<exists>w \<in> set ws. py_pos (num_wires d) w = Some j) \<longrightarrow>
              edge_node (free_wire_edges d' ! j) = next_id d
              \<and> edge_axis (free_wire_edges d' ! j) < length ws
              \<and> \<not> dangling (connections d') (free_wire_edges d ! j)))"
  proof (cases rule: add_gate_nodes_cases)
    case (early e)
    then show ?thesis by simp
  next
    case (registered A' ws' op_node d1)
    then have ws: "ws' = ws" by simp
    note an = registered(2) [unfolded ws]
    from an have d1: "d1 = d\<lparr>next_id := Suc (next_id d),
        nodes := (nodes d)(''state'' \<mapsto> (case nodes d ''state'' of None \<Rightarrow> [] | Some ns \<Rightarrow> ns) @ [op_node])\<rparr>"
      by (auto simp: add_node_Inl)
    show ?thesis
    proof (cases "rep d = ''exact''")
      case True
      with registered(4) ws have c: "connect_gate op_node (length ws) (enumerate 0 ws) d1 = (Inr (), d')"
        by simp
      from T True have L: "wire_ends d = free_wire_edges d" by (simp add: wire_edge_table_ok_def)
      note X = add_gate_exact_lines [OF an registered(3) [unfolded ws] c T1 N L]
      from X True show ?thesis by auto
    next
      case False
      with rp have m: "rep d = ''mps''" by simp
      with registered(4) ws False have c: "add_gate_mps op_node ws d1 = (Inr (), d')" by simp
      from T m have "physical_edges d = Some (free_wire_edges d)"
        by (simp add: wire_edge_table_ok_def)
      then have P1: "physical_edges d1 = Some (free_wire_edges d1)"
        by (simp add: d1 physical_edges_def)
      note X = add_gate_mps_chain [OF c P1]
      have "\<forall>j < num_wires d. (\<exists>w \<in> set ws. py_pos (num_wires d) w = Some j) \<longrightarrow>
             next_id d \<le> edge_node (free_wire_edges d' ! j)"
        using X(2) len by (auto simp: d1)
      with X(1) m show ?thesis by simp
    qed
  qed
  from R G r' show "wire_edge_table_ok d' \<and> numbered d'"
    by (simp add: wire_edge_table_ok_def)
  from R old show "\<forall>j < num_wires d. (\<exists>w \<in> set ws. py_pos (num_wires d) w = Some j) \<longrightarrow>
           next_id d \<le> edge_node (free_wire_edges d' ! j)
           \<and> free_wire_edges d' ! j \<notin> set (free_wire_edges d)"
    by (meson leD)
  from R show "rep d = ''exact'' \<longrightarrow>
           (\<forall>j < num_wires d. (\<exists>w \<in> set ws. py_pos (num_wires d) w = Some j) \<longrightarrow>
              edge_node (free_wire_edges d' ! j) = next_id d
              \<and> edge_axis (free_wire_edges d' ! j) < length ws
              \<and> \<not> dangling (connections d') (free_wire_edges d ! j))"
    by blast
qed

text \<open>
  A table with the entries of two wires exchanged is not as it should be, and on a chain
  neither is the table from before a gate.
\<close>

lemma exchanged_entries_are_not_ok:
  "\<not> wire_edge_table_ok ((dev 2 ''exact'')\<lparr>free_wire_edges := [Edge 1 0, Edge 0 0]\<rparr>)"
  "\<not> wire_edge_table_ok ((dev 2 ''mps'')\<lparr>free_wire_edges := [Edge 1 1, Edge 0 1]\<rparr>)"
  "\<not> wire_edge_table_ok
       ((snd (dev_apply ''CNOT'' (Some [1, 2]) [] (dev 3 ''mps'')))
          \<lparr>free_wire_edges := free_wire_edges (dev 3 ''mps'')\<rparr>)"
  by code_simp+

text \<open>
  C6.  After construction, after a reset and after every successful state preparation the
  wire-edge table has exactly one entry per wire, the entries are pairwise different
  dangling edges, and entry \<open>i\<close> is the edge of wire \<open>i\<close>: the end of the line of the wire in
  the exact representation, the physical edge of site \<open>i\<close> of the chain for a
  matrix-product state.  After a reset entry \<open>i\<close> is the edge of the node made for wire \<open>i\<close>.
  A successful gate application keeps the table that way.  It leaves the entry of every
  wire it does not act on as it was and replaces the entry of every wire it acts on by
  an edge of a node made in the call, which was not in the table before; in the exact
  representation the new entry is an output edge of the gate's node and the entry it
  replaces is connected afterwards.  (\<open>numbered\<close> is the bookkeeping of the model: the
  nodes in use were numbered before the next node.)
\<close>

theorem wire_edge_table_kept:
  "(init ops n k r m = Inr dc \<longrightarrow> wire_edge_table_ok dc \<and> numbered dc)
   \<and> ((rep dr = ''exact'' \<or> rep dr = ''mps'') \<and> reset dr = (Inr (), dr') \<longrightarrow>
        wire_edge_table_ok dr' \<and> numbered dr'
        \<and> (rep dr = ''exact'' \<longrightarrow>
              state_nodes dr' = map (\<lambda>i. Node i (''ZeroState'' @ tuple_repr [int i]) zero_state)
                                    [0..<num_wires dr]
              \<and> free_wire_edges dr' = map (\<lambda>i. Edge i 0) [0..<num_wires dr])
        \<and> (rep dr = ''mps'' \<longrightarrow>
              mps dr' = Some (map (\<lambda>i. Node i (''ZeroState'' @ tuple_repr [int i])
                                          (Arr [1, 2, 1] [1, 0]))
                                  [0..<num_wires dr])
              \<and> free_wire_edges dr' = map (\<lambda>i. Edge i 1) [0..<num_wires dr]))
   \<and> ((rep dp = ''exact'' \<or> rep dp = ''mps'')
        \<and> opp \<in> set [''QubitStateVector'', ''BasisState'']
        \<and> dev_apply opp wp pp dp = (Inr (), dp') \<longrightarrow>
        wire_edge_table_ok dp' \<and> numbered dp')
   \<and> ((rep dg = ''exact'' \<or> rep dg = ''mps'')
        \<and> wire_edge_table_ok dg \<and> numbered dg
        \<and> opg \<notin> set [''QubitStateVector'', ''BasisState'']
        \<and> dev_apply opg (Some wg) pg dg = (Inr (), dg') \<longrightarrow>
        wire_edge_table_ok dg' \<and> numbered dg'
        \<and> (\<forall>j < num_wires dg. (\<forall>w \<in> set wg. py_pos (num_wires dg) w \<noteq> Some j) \<longrightarrow>
              free_wire_edges dg' ! j = free_wire_edges dg ! j)
        \<and> (\<forall>j < num_wires dg. (\<exists>w \<in> set wg. py_pos (num_wires dg) w = Some j) \<longrightarrow>
              next_id dg \<le> edge_node (free_wire_edges dg' ! j)
              \<and> free_wire_edges dg' ! j \<notin> set (free_wire_edges dg))
        \<and> (rep dg = ''exact'' \<longrightarrow>
              (\<forall>j < num_wires dg. (\<exists>w \<in> set wg. py_pos (num_wires dg) w = Some j) \<longrightarrow>
                 edge_node (free_wire_edges dg' ! j) = next_id dg
                 \<and> edge_axis (free_wire_edges dg' ! j) < length wg
                 \<and> \<not> dangling (connections dg') (free_wire_edges dg ! j))))"
proof -
  have A: "wire_edge_table_ok dc \<and> numbered dc" if "init ops n k r m = Inr dc"
    using that by (rule init_tie)
  have B: "wire_edge_table_ok dr' \<and> numbered dr'
        \<and> (rep dr = ''exact'' \<longrightarrow>
              state_nodes dr' = map (\<lambda>i. Node i (''ZeroState'' @ tuple_repr [int i]) zero_state)
                                    [0..<num_wires dr]
              \<and> free_wire_edges dr' = map (\<lambda>i. Edge i 0) [0..<num_wires dr])
        \<and> (rep dr = ''mps'' \<longrightarrow>
              mps dr' = Some (map (\<lambda>i. Node i (''ZeroState'' @ tuple_repr [int i])
                                          (Arr [1, 2, 1] [1, 0]))
                                  [0..<num_wires dr])
              \<and> free_wire_edges dr' = map (\<lambda>i. Edge i 1) [0..<num_wires dr])"
    if "(rep dr = ''exact'' \<or> rep dr = ''mps'') \<and> reset dr = (Inr (), dr')"
    using that reset_tie [of dr "()" dr'] reset_explicit [of dr "()" dr'] by simp
  have C: "wire_edge_table_ok dp' \<and> numbered dp'"
    if "(rep dp = ''exact'' \<or> rep dp = ''mps'')
        \<and> opp \<in> set [''QubitStateVector'', ''BasisState'']
        \<and> dev_apply opp wp pp dp = (Inr (), dp')"
    using that state_prep_tie [of opp dp wp pp dp'] by simp
  have D: "wire_edge_table_ok dg' \<and> numbered dg'
        \<and> (\<forall>j < num_wires dg. (\<forall>w \<in> set wg. py_pos (num_wires dg) w \<noteq> Some j) \<longrightarrow>
              free_wire_edges dg' ! j = free_wire_edges dg ! j)
        \<and> (\<forall>j < num_wires dg. (\<exists>w \<in> set wg. py_pos (num_wires dg) w = Some j) \<longrightarrow>
              next_id dg \<le> edge_node (free_wire_edges dg' ! j)
              \<and> free_wire_edges dg' ! j \<notin> set (free_wire_edges dg))
        \<and> (rep dg = ''exact'' \<longrightarrow>
              (\<forall>j < num_wires dg. (\<exists>w \<in> set wg. py_pos (num_wires dg) w = Some j) \<longrightarrow>
                 edge_node (free_wire_edges dg' ! j) = next_id dg
                 \<and> edge_axis (free_wire_edges dg' ! j) < length wg
                 \<and> \<not> dangling (connections dg') (free_wire_edges dg ! j)))"
    if h: "(rep dg = ''exact'' \<or> rep dg = ''mps'')
        \<and> wire_edge_table_ok dg \<and> numbered dg
        \<and> opg \<notin> set [''QubitStateVector'', ''BasisState'']
        \<and> dev_apply opg (Some wg) pg dg = (Inr (), dg')"
  proof -
    from h have op: "opg \<notin> set [''QubitStateVector'', ''BasisState'']"
      and rp: "rep dg = ''exact'' \<or> rep dg = ''mps''"
      and T: "wire_edge_table_ok dg" and N: "numbered dg"
      and run: "dev_apply opg (Some wg) pg dg = (Inr (), dg')" by simp_all
    from gate_table_strong [OF op rp T N run] show ?thesis by blast
  qed
  from A B C D show ?thesis by blast
qed

lemma dev_tables:
  "free_wire_edges (dev 2 ''exact'') = [Edge 0 0, Edge 1 0]"
  "next_id (dev 2 ''exact'') = 2"
  "free_wire_edges (dev 3 ''mps'') = [Edge 0 1, Edge 1 1, Edge 2 1]"
  "next_id (dev 3 ''mps'') = 3"
  "rep (dev 3 ''mps'') = ''mps''"
  by code_simp+

theorem wire_edge_table_kept_witness:
  "wire_edge_table_ok (dev 2 ''exact'')
   \<and> wire_edge_table_ok (snd (reset (dev 2 ''exact'')))
   \<and> free_wire_edges (snd (reset (dev 2 ''exact''))) = [Edge 0 0, Edge 1 0]
   \<and> wire_edge_table_ok (snd (dev_apply ''BasisState'' (Some [0, 1]) [Ints [1, 0]] (dev 2 ''mps'')))
   \<and> wire_edge_table_ok (snd (dev_apply ''CNOT'' (Some [1, 0]) [] (dev 2 ''exact'')))
   \<and> edge_node (free_wire_edges (snd (dev_apply ''CNOT'' (Some [1, 0]) [] (dev 2 ''exact''))) ! 0)
       = 2
   \<and> edge_node (free_wire_edges (snd (dev_apply ''CNOT'' (Some [1, 0]) [] (dev 2 ''exact''))) ! 1)
       = 2
   \<and> \<not> dangling (connections (snd (dev_apply ''CNOT'' (Some [1, 0]) [] (dev 2 ''exact''))))
                  (Edge 0 0)
   \<and> wire_edge_table_ok (snd (dev_apply ''CNOT'' (Some [1, 2]) [] (dev 3 ''mps'')))
   \<and> free_wire_edges (snd (dev_apply ''CNOT'' (Some [1, 2]) [] (dev 3 ''mps''))) ! 0 = Edge 0 1
   \<and> 3 \<le> edge_node (free_wire_edges (snd (dev_apply ''CNOT'' (Some [1, 2]) [] (dev 3 ''mps''))) ! 1)
   \<and> 3 \<le> edge_node (free_wire_edges (snd (dev_apply ''CNOT'' (Some [1, 2]) [] (dev 3 ''mps''))) ! 2)"
proof -
  have e2: "init pauli_ops 2 1000 ''exact'' ''auto'' = Inr (dev 2 ''exact'')"
    and m3: "init pauli_ops 3 1000 ''mps'' ''auto'' = Inr (dev 3 ''mps'')"
    by (simp_all add: init_dev)
  have r: "rep (dev 2 ''exact'') = ''exact''" "rep (dev 2 ''mps'') = ''mps''"
    "num_wires (dev 3 ''mps'') = 3"
    by code_simp+
  have p2: "py_pos 2 1 = Some 1" "py_pos 2 0 = Some 0"
    and p3: "py_pos 3 1 = Some 1" "py_pos 3 2 = Some 2"
    by (simp_all add: py_pos_def)
  note K = wire_edge_table_kept
  from K [where dc = "dev 2 ''exact''", THEN conjunct1] e2
  have t1: "wire_edge_table_ok (dev 2 ''exact'')" "numbered (dev 2 ''exact'')" by auto
  from K [where dc = "dev 3 ''mps''", THEN conjunct1] m3
  have t3: "wire_edge_table_ok (dev 3 ''mps'')" "numbered (dev 3 ''mps'')" by auto
  from K [where dr = "dev 2 ''exact''" and dr' = "snd (reset (dev 2 ''exact''))",
          THEN conjunct2, THEN conjunct1] r outcome [OF dev_2_exact_reset]
  have a: "wire_edge_table_ok (snd (reset (dev 2 ''exact'')))"
    "free_wire_edges (snd (reset (dev 2 ''exact''))) = [Edge 0 0, Edge 1 0]"
    by (simp_all add: dev_2_exact_wires upt_rec)
  from K [where dp = "dev 2 ''mps''" and opp = "''BasisState''"
            and wp = "Some [0, 1]" and pp = "[Ints [1, 0]]"
            and dp' = "snd (dev_apply ''BasisState'' (Some [0, 1]) [Ints [1, 0]] (dev 2 ''mps''))",
          THEN conjunct2, THEN conjunct2, THEN conjunct1] r outcome [OF dev_2_mps_basis_state]
  have b: "wire_edge_table_ok (snd (dev_apply ''BasisState'' (Some [0, 1]) [Ints [1, 0]] (dev 2 ''mps'')))"
    by simp
  let ?x = "snd (dev_apply ''CNOT'' (Some [1, 0]) [] (dev 2 ''exact''))"
  note X = K [where dg = "dev 2 ''exact''" and opg = "''CNOT''" and wg = "[1, 0]"
            and pg = "[]" and dg' = ?x, THEN conjunct2, THEN conjunct2, THEN conjunct2]
  from X t1 r outcome [OF dev_2_exact_cnot]
  have c: "wire_edge_table_ok ?x"
    and c': "\<forall>j < 2. (\<exists>w \<in> set [1, 0]. py_pos 2 w = Some j) \<longrightarrow>
                 edge_node (free_wire_edges ?x ! j) = 2
                 \<and> edge_axis (free_wire_edges ?x ! j) < length [1 :: int, 0]
                 \<and> \<not> dangling (connections ?x) ([Edge 0 0, Edge 1 0] ! j)"
    by (simp_all add: dev_2_exact_wires dev_tables)
  from c' [rule_format, of 0] c' [rule_format, of 1] p2
  have c2: "edge_node (free_wire_edges ?x ! 0) = 2" "edge_node (free_wire_edges ?x ! 1) = 2"
    "\<not> dangling (connections ?x) (Edge 0 0)"
    by simp_all
  let ?y = "snd (dev_apply ''CNOT'' (Some [1, 2]) [] (dev 3 ''mps''))"
  note Y = K [where dg = "dev 3 ''mps''" and opg = "''CNOT''" and wg = "[1, 2]"
            and pg = "[]" and dg' = ?y, THEN conjunct2, THEN conjunct2, THEN conjunct2]
  from Y t3 dev_tables(5) outcome [OF dev_3_mps_cnot]
  have d: "wire_edge_table_ok ?y"
    and d0: "\<forall>j < 3. (\<forall>w \<in> set [1, 2]. py_pos 3 w \<noteq> Some j) \<longrightarrow>
               free_wire_edges ?y ! j = [Edge 0 1, Edge 1 1, Edge 2 1] ! j"
    and d': "\<forall>j < 3. (\<exists>w \<in> set [1, 2]. py_pos 3 w = Some j) \<longrightarrow>
               3 \<le> edge_node (free_wire_edges ?y ! j)"
    by (simp_all add: r dev_tables)
  have n0: "\<forall>w \<in> set [1, 2 :: int]. py_pos 3 w \<noteq> Some 0" by (simp add: py_pos_def)
  from d0 [rule_format, of 0] n0 have d1: "free_wire_edges ?y ! 0 = Edge 0 1" by simp
  from d' [rule_format, of 1] d' [rule_format, of 2] p3
  have d2: "3 \<le> edge_node (free_wire_edges ?y ! 1)" "3 \<le> edge_node (free_wire_edges ?y ! 2)"
    by simp_all
  from t1 a b c c2 d d1 d2 show ?thesis by simp
qed

end
